theory Spec2Isabelle
  imports Complex_Main "HOL-Library.AList"
begin

section \<open>JavaScript values, exceptions and effects\<close>

text \<open>
  A JavaScript method that mutates its receiver and may throw is a function from the
  state before to an outcome and the state after. The state after is kept also when an
  exception is thrown: everything done before the \<^verbatim>\<open>throw\<close> stays done.
\<close>

datatype js_error = TypeError | CKEditorError string | RenderingError string

type_synonym ('s, 'a) js = "'s \<Rightarrow> (js_error + 'a) \<times> 's"

definition returns :: "'a \<Rightarrow> ('s, 'a) js" where
  "returns v s = (Inr v, s)"

definition throws :: "js_error \<Rightarrow> ('s, 'a) js" where
  "throws e s = (Inl e, s)"

text \<open>Statement sequencing: the second statement runs only when the first did not throw.\<close>

definition andThen :: "('s, 'a) js \<Rightarrow> ('s, 'b) js \<Rightarrow> ('s, 'b) js" where
  "andThen f g s = (case f s of (Inl e, s') \<Rightarrow> (Inl e, s') | (Inr _, s') \<Rightarrow> g s')"

definition withResult :: "('s, 'a) js \<Rightarrow> ('a \<Rightarrow> ('s, 'b) js) \<Rightarrow> ('s, 'b) js" where
  "withResult f g s = (case f s of (Inl e, s') \<Rightarrow> (Inl e, s') | (Inr v, s') \<Rightarrow> g v s')"

text \<open>A callback run for every element of an array, in order, until one throws.\<close>

fun forEach :: "('a \<Rightarrow> ('s, unit) js) \<Rightarrow> 'a list \<Rightarrow> ('s, unit) js" where
  "forEach f [] = returns ()"
| "forEach f (x # xs) = andThen (f x) (forEach f xs)"

definition completed :: "(js_error + 'a) \<times> 's \<Rightarrow> bool" where
  "completed r = (case fst r of Inl _ \<Rightarrow> False | Inr _ \<Rightarrow> True)"

section \<open>The view document (\<^verbatim>\<open>engine/view/document.js\<close>)\<close>

subsection \<open>Collaborators of the document\<close>

record dom_element =
  domId :: nat
  tagName :: string
  isHTMLElement :: bool

text \<open>The first argument of \<^verbatim>\<open>createRoot\<close>: a tag name or a DOM element.\<close>

datatype root_arg = TagName string | Element dom_element

text \<open>
  \<^verbatim>\<open>new ContainerElement( rootTag )\<close>: every construction yields a new object, told apart
  from the earlier ones by \<open>rootUid\<close>.
\<close>

record container_element =
  rootTag :: string
  rootUid :: nat

datatype change_type = CHILDREN | ATTRIBUTES | TEXT

text \<open>
  Modelled from the spec: the Observer class (\<^verbatim>\<open>observer/observer.js\<close> is not among the
  sources). The spec gives an observer the capability
  \<^verbatim>\<open>{observe(domElement, rootName), enable(), disable()}\<close>; an observer is created
  disabled, \<^verbatim>\<open>observe\<close> attaches it to one more DOM root, \<^verbatim>\<open>enable\<close> and
  \<^verbatim>\<open>disable\<close> switch it. \<open>instanceId\<close> is the identity of the object,
  \<open>observerType\<close> the constructor it was made by.
\<close>

record observer =
  instanceId :: nat
  observerType :: nat
  observed :: "(dom_element \<times> string) list"
  isEnabled :: bool

definition new_Observer :: "nat \<Rightarrow> nat \<Rightarrow> observer" where
  "new_Observer Observer ident =
     \<lparr>instanceId = ident, observerType = Observer, observed = [], isEnabled = False\<rparr>"

definition observe :: "dom_element \<Rightarrow> string \<Rightarrow> observer \<Rightarrow> observer" where
  "observe domElement name ob = ob\<lparr>observed := observed ob @ [(domElement, name)]\<rparr>"

definition enable :: "observer \<Rightarrow> observer" where
  "enable ob = ob\<lparr>isEnabled := True\<rparr>"

definition disable :: "observer \<Rightarrow> observer" where
  "disable ob = ob\<lparr>isEnabled := False\<rparr>"

text \<open>
  The DOM converter and the renderer are not among the sources either. Their states are
  the type parameters \<open>'c\<close> and \<open>'r\<close>, and the three methods the document calls are
  parameters of the model; each may throw. A view root that does not exist is
  \<^verbatim>\<open>undefined\<close> in the source and \<open>None\<close> here.
\<close>

record ('c, 'r) collaborators =
  bindElements :: "dom_element \<Rightarrow> container_element option \<Rightarrow> ('c, unit) js"
  markToSync :: "change_type \<Rightarrow> container_element option \<Rightarrow> ('r, unit) js"
  rendererRender :: "('r, unit) js"

subsection \<open>The document\<close>

text \<open>
  The three ES6 maps are association lists in insertion order; \<^verbatim>\<open>Map.set\<close> is
  \<^const>\<open>AList.update\<close> (an existing key keeps its place and gets the new value) and
  \<^verbatim>\<open>Map.get\<close> is \<^const>\<open>map_of\<close>. Observers are keyed by their constructor.
  \<open>objectsCreated\<close> numbers the objects the document constructs, and
  \<open>changeListeners\<close> lists the view roots whose change events are forwarded to the
  renderer.
\<close>

record ('c, 'r) document =
  domRoots :: "(string \<times> dom_element) list"
  viewRoots :: "(string \<times> container_element) list"
  domConverter :: 'c
  renderer :: 'r
  observers :: "(nat \<times> observer) list"
  changeListeners :: "nat list"
  objectsCreated :: nat

definition Document_new :: "'c \<Rightarrow> 'r \<Rightarrow> ('c, 'r) document" where
  "Document_new conv rend =
     \<lparr>domRoots = [], viewRoots = [], domConverter = conv, renderer = rend,
      observers = [], changeListeners = [], objectsCreated = 0\<rparr>"

text \<open>The default value of every \<^verbatim>\<open>name\<close> parameter.\<close>

definition main :: string where
  "main = ''main''"

definition onConverter :: "('c, 'a) js \<Rightarrow> (('c, 'r) document, 'a) js" where
  "onConverter f d = (case f (domConverter d) of (res, c') \<Rightarrow> (res, d\<lparr>domConverter := c'\<rparr>))"

definition onRenderer :: "('r, 'a) js \<Rightarrow> (('c, 'r) document, 'a) js" where
  "onRenderer f d = (case f (renderer d) of (res, r') \<Rightarrow> (res, d\<lparr>renderer := r'\<rparr>))"

definition forEachObserver :: "(observer \<Rightarrow> observer) \<Rightarrow> ('c, 'r) document \<Rightarrow> ('c, 'r) document" where
  "forEachObserver f d = d\<lparr>observers := map (\<lambda>(ctor, ob). (ctor, f ob)) (observers d)\<rparr>"

definition getObserver :: "('c, 'r) document \<Rightarrow> nat \<Rightarrow> observer option" where
  "getObserver d Observer = map_of (observers d) Observer"

definition getRoot :: "('c, 'r) document \<Rightarrow> string \<Rightarrow> container_element option" where
  "getRoot d name = map_of (viewRoots d) name"

definition getDomRoot :: "('c, 'r) document \<Rightarrow> string \<Rightarrow> dom_element option" where
  "getDomRoot d name = map_of (domRoots d) name"

definition addObserver :: "nat \<Rightarrow> (('c, 'r) document, observer) js" where
  "addObserver Observer d =
     (case map_of (observers d) Observer of
        Some ob \<Rightarrow> (Inr ob, d)
      | None \<Rightarrow>
          (let ob0 = new_Observer Observer (objectsCreated d);
               ob1 = fold (\<lambda>(name, domElement). observe domElement name) (domRoots d) ob0;
               ob2 = enable ob1
           in (Inr ob2,
               d\<lparr>objectsCreated := Suc (objectsCreated d),
                 observers := AList.update Observer ob2 (observers d)\<rparr>)))"

definition attachDomRoot ::
  "('c, 'r) collaborators \<Rightarrow> dom_element \<Rightarrow> string \<Rightarrow> (('c, 'r) document, unit) js" where
  "attachDomRoot env domRoot name d =
     (let viewRoot = getRoot d name;
          d1 = d\<lparr>domRoots := AList.update name domRoot (domRoots d)\<rparr>
      in andThen (onConverter (bindElements env domRoot viewRoot))
           (andThen (onRenderer (markToSync env CHILDREN viewRoot))
              (\<lambda>d3. (Inr (), forEachObserver (observe domRoot name) d3))) d1)"

definition createRoot ::
  "('c, 'r) collaborators \<Rightarrow> root_arg \<Rightarrow> string \<Rightarrow> (('c, 'r) document, container_element) js" where
  "createRoot env domRoot name d =
     (let tag = (case domRoot of TagName t \<Rightarrow> t | Element el \<Rightarrow> tagName el);
          viewRoot = \<lparr>rootTag = tag, rootUid = objectsCreated d\<rparr>;
          d1 = d\<lparr>objectsCreated := Suc (objectsCreated d),
                 viewRoots := AList.update name viewRoot (viewRoots d),
                 changeListeners := changeListeners d @ [rootUid viewRoot]\<rparr>
      in case domRoot of
           TagName _ \<Rightarrow> (Inr viewRoot, d1)
         | Element el \<Rightarrow>
             if isHTMLElement el
             then andThen (attachDomRoot env el name) (returns viewRoot) d1
             else (Inr viewRoot, d1))"

definition render :: "('c, 'r) collaborators \<Rightarrow> (('c, 'r) document, unit) js" where
  "render env d =
     andThen (\<lambda>d0. (Inr (), forEachObserver disable d0))
       (andThen (onRenderer (rendererRender env))
          (\<lambda>d2. (Inr (), forEachObserver enable d2))) d"


section \<open>The toolbar view (\<^verbatim>\<open>ui/toolbar/toolbarview.js\<close>)\<close>

subsection \<open>Views, collections and the browser\<close>

text \<open>
  The views that occur in a toolbar. A separator and a component are constructed anew each
  time (\<^verbatim>\<open>new ToolbarSeparatorView()\<close>, \<^verbatim>\<open>factory.create( name )\<close>); the number is the
  identity of the object. The items view and the grouped-items dropdown exist once per
  toolbar.
\<close>

datatype view = ItemsView | ToolbarSeparatorView nat | GroupedItemsDropdown | ComponentView string nat

text \<open>
  Modelled from the spec: the Collection class behind \<^verbatim>\<open>createCollection()\<close> (it is not
  among the sources). The spec speaks of ordered collections of item views into which an
  item is placed at an index and from which it is removed. An item is in a collection at
  most once; \<^verbatim>\<open>add\<close> without an index appends, and an index beyond the length, an item
  that is already there and the removal of an item that is not there are errors that leave
  the collection as it was. \<^verbatim>\<open>first\<close> and \<^verbatim>\<open>last\<close> of an empty collection are
  \<^verbatim>\<open>undefined\<close>, here \<open>None\<close>, and removing \<^verbatim>\<open>undefined\<close> is a type error.
\<close>

definition collection_add :: "'a \<Rightarrow> nat option \<Rightarrow> ('a list, unit) js" where
  "collection_add item index xs =
     (if item \<in> set xs then (Inl (CKEditorError ''collection-add-item-already-exists''), xs)
      else case index of
             None \<Rightarrow> (Inr (), xs @ [item])
           | Some i \<Rightarrow>
               if i > length xs then (Inl (CKEditorError ''collection-add-item-invalid-index''), xs)
               else (Inr (), take i xs @ item # drop i xs))"

definition collection_remove :: "'a option \<Rightarrow> ('a list, 'a) js" where
  "collection_remove subject xs =
     (case subject of
        None \<Rightarrow> (Inl TypeError, xs)
      | Some item \<Rightarrow>
          if item \<in> set xs then (Inr item, remove1 item xs)
          else (Inl (CKEditorError ''collection-remove-404''), xs))"

definition collection_first :: "'a list \<Rightarrow> 'a option" where
  "collection_first xs = (case xs of [] \<Rightarrow> None | x # _ \<Rightarrow> Some x)"

definition collection_last :: "'a list \<Rightarrow> 'a option" where
  "collection_last xs = (if xs = [] then None else Some (last xs))"

text \<open>The index an item has in a collection; it is passed along with the remove event.\<close>

definition getIndex :: "'a \<Rightarrow> 'a list \<Rightarrow> nat" where
  "getIndex item xs = length (takeWhile (\<lambda>x. x \<noteq> item) xs)"

text \<open>
  Modelled from the spec: the focus tracker (not among the sources) is the set of the views
  under focus tracking; adding and removing do not fail.
\<close>

definition tracker_add :: "view \<Rightarrow> view list \<Rightarrow> view list" where
  "tracker_add v tracked = (if v \<in> set tracked then tracked else tracked @ [v])"

definition tracker_remove :: "view \<Rightarrow> view list \<Rightarrow> view list" where
  "tracker_remove v tracked = removeAll v tracked"

text \<open>
  What the browser reports. \<^verbatim>\<open>new Rect( element.lastChild )\<close> and
  \<^verbatim>\<open>new Rect( element )\<close> depend on the layout, that is on the items shown in the items view
  and on the children of the toolbar element; the two padding fields are
  \<^verbatim>\<open>Number.parseInt( computedStyle.paddingRight )\<close> and the same for
  \<^verbatim>\<open>paddingLeft\<close>, a whole number or \<^verbatim>\<open>NaN\<close>. \<open>inDocumentBody\<close> is
  \<^verbatim>\<open>viewElement.ownerDocument.body.contains( viewElement )\<close>.

  The edges of a rectangle are doubles, and so are the difference and the sum that
  \<^verbatim>\<open>_areItemsOverflowing\<close> computes from them: the exact difference or sum, rounded to a
  double. \<open>nearestDouble\<close> is that rounding. It is left open here, as the rectangles are:
  what is proved holds for every rounding, the one of the IEEE doubles among them.
\<close>

record rect =
  rectLeft :: real
  rectRight :: real

datatype js_number = NaN | Num int

record layout =
  inDocumentBody :: bool
  lastChildRect :: "view list \<Rightarrow> view list \<Rightarrow> rect"
  toolbarRect :: "view list \<Rightarrow> view list \<Rightarrow> rect"
  paddingRight :: js_number
  paddingLeft :: js_number
  nearestDouble :: "real \<Rightarrow> real"

text \<open>\<^verbatim>\<open>!cachedPadding\<close>: true of \<^verbatim>\<open>null\<close>, of \<^verbatim>\<open>NaN\<close> and of zero.\<close>

fun falsy :: "js_number option \<Rightarrow> bool" where
  "falsy None = True"
| "falsy (Some NaN) = True"
| "falsy (Some (Num n)) = (n = 0)"

text \<open>
  \<^verbatim>\<open>a > b - padding\<close> and \<^verbatim>\<open>a < b + padding\<close> on JavaScript numbers, with the
  rounding \<open>rnd\<close> of the difference and of the sum: a comparison with \<^verbatim>\<open>NaN\<close> is false,
  and \<^verbatim>\<open>null\<close> counts as zero (which changes no double).
\<close>

fun exceedsRight :: "(real \<Rightarrow> real) \<Rightarrow> real \<Rightarrow> real \<Rightarrow> js_number option \<Rightarrow> bool" where
  "exceedsRight rnd a b None = (a > b)"
| "exceedsRight rnd a b (Some NaN) = False"
| "exceedsRight rnd a b (Some (Num p)) = (a > rnd (b - of_int p))"

fun exceedsLeft :: "(real \<Rightarrow> real) \<Rightarrow> real \<Rightarrow> real \<Rightarrow> js_number option \<Rightarrow> bool" where
  "exceedsLeft rnd a b None = (a < b)"
| "exceedsLeft rnd a b (Some NaN) = False"
| "exceedsLeft rnd a b (Some (Num p)) = (a < rnd (b + of_int p))"

datatype resize_observer = Observing | Disconnected

subsection \<open>The toolbar and its behavior\<close>

text \<open>
  One record holds the toolbar view and the state of its behavior. \<open>shouldGroupWhenFull\<close>
  is the option that selects the behavior: \<^verbatim>\<open>DynamicGrouping\<close> when set,
  \<^verbatim>\<open>StaticLayout\<close> otherwise. The fields from \<open>ungroupedItems\<close> to \<open>previousWidth\<close>
  belong to \<^verbatim>\<open>DynamicGrouping\<close>: \<open>resizeObserver\<close> and \<open>cachedPadding\<close> are
  \<^verbatim>\<open>null\<close> (\<open>None\<close>) at first, \<open>hasViewElement\<close> tells whether \<^verbatim>\<open>viewElement\<close>
  has been assigned (it is \<^verbatim>\<open>undefined\<close> until \<^verbatim>\<open>render\<close>), and \<open>previousWidth\<close> is the
  variable the resize callback closes over. \<open>warnings\<close> is what was written with
  \<^verbatim>\<open>console.warn\<close>, and \<open>viewsCreated\<close> numbers the views constructed so far.
\<close>

record toolbar =
  shouldGroupWhenFull :: bool
  uiLanguageDirection :: string
  items :: "view list"
  children :: "view list"
  focusables :: "view list"
  focusTracker :: "view list"
  isRendered :: bool
  isDestroyed :: bool
  ungroupedItems :: "view list"
  groupedItems :: "view list"
  dropdownDestroyed :: bool
  resizeObserver :: "resize_observer option"
  cachedPadding :: "js_number option"
  hasViewElement :: bool
  previousWidth :: "real option"
  warnings :: "string list"
  viewsCreated :: nat

definition ToolbarView_new :: "string \<Rightarrow> bool \<Rightarrow> toolbar" where
  "ToolbarView_new direction grouping =
     \<lparr>shouldGroupWhenFull = grouping, uiLanguageDirection = direction,
      items = [], children = [ItemsView], focusables = [], focusTracker = [],
      isRendered = False, isDestroyed = False,
      ungroupedItems = [], groupedItems = [], dropdownDestroyed = False,
      resizeObserver = None, cachedPadding = None, hasViewElement = False,
      previousWidth = None, warnings = [], viewsCreated = 0\<rparr>"

definition onItems :: "(view list, 'a) js \<Rightarrow> (toolbar, 'a) js" where
  "onItems f s = (case f (items s) of (res, xs) \<Rightarrow> (res, s\<lparr>items := xs\<rparr>))"

definition onChildren :: "(view list, 'a) js \<Rightarrow> (toolbar, 'a) js" where
  "onChildren f s = (case f (children s) of (res, xs) \<Rightarrow> (res, s\<lparr>children := xs\<rparr>))"

definition onFocusables :: "(view list, 'a) js \<Rightarrow> (toolbar, 'a) js" where
  "onFocusables f s = (case f (focusables s) of (res, xs) \<Rightarrow> (res, s\<lparr>focusables := xs\<rparr>))"

definition onUngroupedItems :: "(view list, 'a) js \<Rightarrow> (toolbar, 'a) js" where
  "onUngroupedItems f s = (case f (ungroupedItems s) of (res, xs) \<Rightarrow> (res, s\<lparr>ungroupedItems := xs\<rparr>))"

definition onGroupedItems :: "(view list, 'a) js \<Rightarrow> (toolbar, 'a) js" where
  "onGroupedItems f s = (case f (groupedItems s) of (res, xs) \<Rightarrow> (res, s\<lparr>groupedItems := xs\<rparr>))"

definition new_ToolbarSeparatorView :: "(toolbar, view) js" where
  "new_ToolbarSeparatorView s =
     (Inr (ToolbarSeparatorView (viewsCreated s)), s\<lparr>viewsCreated := Suc (viewsCreated s)\<rparr>)"

text \<open>
  Modelled from the spec: the component factory (not among the sources) is the set of the
  names it recognizes, \<^verbatim>\<open>factory.has\<close>; \<^verbatim>\<open>factory.create( name )\<close> constructs a new view
  for the component of that name.
\<close>

definition factory_create :: "string \<Rightarrow> (toolbar, view) js" where
  "factory_create name s =
     (Inr (ComponentView name (viewsCreated s)), s\<lparr>viewsCreated := Suc (viewsCreated s)\<rparr>)"

definition focusTracker_add :: "view \<Rightarrow> (toolbar, unit) js" where
  "focusTracker_add v s = (Inr (), s\<lparr>focusTracker := tracker_add v (focusTracker s)\<rparr>)"

definition focusTracker_remove :: "view \<Rightarrow> (toolbar, unit) js" where
  "focusTracker_remove v s = (Inr (), s\<lparr>focusTracker := tracker_remove v (focusTracker s)\<rparr>)"

subsection \<open>\<^verbatim>\<open>DynamicGrouping\<close>\<close>

definition updateFocusCycleableItems :: "(toolbar, unit) js" where
  "updateFocusCycleableItems s =
     andThen (forEach (\<lambda>item. onFocusables (collection_add item None)) (ungroupedItems s))
       (\<lambda>s'. if groupedItems s' \<noteq> []
             then onFocusables (collection_add GroupedItemsDropdown None) s'
             else (Inr (), s'))
       (s\<lparr>focusables := []\<rparr>)"

text \<open>
  The four structural changes that have \<^verbatim>\<open>_updateFocusCycleableItems\<close> as a listener:
  the collection changes first, then the listener runs.
\<close>

definition ungroupedItems_add :: "view \<Rightarrow> nat option \<Rightarrow> (toolbar, unit) js" where
  "ungroupedItems_add item index =
     andThen (onUngroupedItems (collection_add item index)) updateFocusCycleableItems"

definition ungroupedItems_remove :: "view option \<Rightarrow> (toolbar, view) js" where
  "ungroupedItems_remove subject =
     withResult (onUngroupedItems (collection_remove subject))
       (\<lambda>item. andThen updateFocusCycleableItems (returns item))"

definition viewChildren_add :: "view \<Rightarrow> (toolbar, unit) js" where
  "viewChildren_add v =
     andThen (onChildren (collection_add v None)) updateFocusCycleableItems"

definition viewChildren_remove :: "view option \<Rightarrow> (toolbar, view) js" where
  "viewChildren_remove subject =
     withResult (onChildren (collection_remove subject))
       (\<lambda>v. andThen updateFocusCycleableItems (returns v))"

definition areItemsOverflowing :: "layout \<Rightarrow> (toolbar, bool) js" where
  "areItemsOverflowing env s =
     (if ungroupedItems s = [] then (Inr False, s)
      else
        let lastChild = lastChildRect env (ungroupedItems s) (children s);
            toolbarR = toolbarRect env (ungroupedItems s) (children s);
            s1 = (if falsy (cachedPadding s)
                  then s\<lparr>cachedPadding :=
                           Some (if uiLanguageDirection s = ''ltr''
                                 then paddingRight env else paddingLeft env)\<rparr>
                  else s)
        in if uiLanguageDirection s = ''ltr''
           then (Inr (exceedsRight (nearestDouble env) (rectRight lastChild) (rectRight toolbarR)
                        (cachedPadding s1)), s1)
           else (Inr (exceedsLeft (nearestDouble env) (rectLeft lastChild) (rectLeft toolbarR)
                        (cachedPadding s1)), s1))"

definition groupLastItem :: "(toolbar, unit) js" where
  "groupLastItem s =
     andThen
       (if groupedItems s = []
        then andThen (withResult new_ToolbarSeparatorView viewChildren_add)
               (andThen (viewChildren_add GroupedItemsDropdown)
                  (focusTracker_add GroupedItemsDropdown))
        else returns ())
       (withResult (\<lambda>s'. ungroupedItems_remove (collection_last (ungroupedItems s')) s')
          (\<lambda>item. onGroupedItems (collection_add item (Some 0))))
       s"

definition ungroupFirstItem :: "(toolbar, unit) js" where
  "ungroupFirstItem =
     andThen
       (withResult (\<lambda>s. onGroupedItems (collection_remove (collection_first (groupedItems s))) s)
          (\<lambda>item. ungroupedItems_add item None))
       (\<lambda>s. if groupedItems s = []
            then andThen (viewChildren_remove (Some GroupedItemsDropdown))
                   (andThen (\<lambda>s'. viewChildren_remove (collection_last (children s')) s')
                      (focusTracker_remove GroupedItemsDropdown)) s
            else (Inr (), s))"


subsection \<open>What the grouping steps leave unchanged\<close>

text \<open>
  The two loops of \<^verbatim>\<open>_updateGrouping\<close> end because \<^verbatim>\<open>_groupLastItem\<close> shortens
  \<^verbatim>\<open>ungroupedItems\<close> and \<^verbatim>\<open>_ungroupFirstItem\<close> shortens \<^verbatim>\<open>groupedItems\<close>. The facts
  below are what the termination proofs need: which fields a step does not touch.
\<close>

lemma onFocusables_frame:
  "snd (onFocusables f s) = s\<lparr>focusables := focusables (snd (onFocusables f s))\<rparr>"
  by (simp add: onFocusables_def split: prod.splits)

lemma forEach_focusables_frame:
  "snd (forEach (\<lambda>item. onFocusables (collection_add item None)) xs s) =
     s\<lparr>focusables := focusables (snd (forEach (\<lambda>item. onFocusables (collection_add item None)) xs s))\<rparr>"
proof (induction xs arbitrary: s)
  case Nil
  show ?case by (simp add: returns_def)
next
  case (Cons x xs)
  obtain r s1 where s1: "onFocusables (collection_add x None) s = (r, s1)" by force
  then have f1: "s1 = s\<lparr>focusables := focusables s1\<rparr>"
    using onFocusables_frame[of "collection_add x None" s] by simp
  show ?case
  proof (cases r)
    case (Inl e)
    with s1 f1 show ?thesis by (simp add: andThen_def)
  next
    case (Inr u)
    have "snd (forEach (\<lambda>item. onFocusables (collection_add item None)) xs s1) =
       s1\<lparr>focusables := focusables (snd (forEach (\<lambda>item. onFocusables (collection_add item None)) xs s1))\<rparr>"
      by (rule Cons.IH)
    then have "snd (forEach (\<lambda>item. onFocusables (collection_add item None)) xs s1) =
       s\<lparr>focusables := focusables (snd (forEach (\<lambda>item. onFocusables (collection_add item None)) xs s1))\<rparr>"
      by (subst (asm) (2) f1) simp
    with s1 Inr show ?thesis by (simp add: andThen_def)
  qed
qed

lemma updateFocusCycleableItems_frame:
  "snd (updateFocusCycleableItems s) = s\<lparr>focusables := focusables (snd (updateFocusCycleableItems s))\<rparr>"
proof -
  let ?s0 = "s\<lparr>focusables := []\<rparr>"
  let ?F = "forEach (\<lambda>item. onFocusables (collection_add item None)) (ungroupedItems s)"
  obtain r s1 where s1: "?F ?s0 = (r, s1)" by force
  have "s1 = ?s0\<lparr>focusables := focusables s1\<rparr>"
    using forEach_focusables_frame[of "ungroupedItems s" ?s0] s1 by simp
  then have e: "s1 = s\<lparr>focusables := focusables s1\<rparr>" by simp
  show ?thesis
  proof (cases r)
    case (Inl e')
    with s1 e show ?thesis by (simp add: updateFocusCycleableItems_def andThen_def)
  next
    case (Inr u)
    have "snd (onFocusables (collection_add GroupedItemsDropdown None) s1) =
       s\<lparr>focusables := focusables (snd (onFocusables (collection_add GroupedItemsDropdown None) s1))\<rparr>"
      using onFocusables_frame[of "collection_add GroupedItemsDropdown None" s1]
      by (subst (asm) (2) e) simp
    with s1 Inr e show ?thesis
      by (simp add: updateFocusCycleableItems_def andThen_def)
  qed
qed


definition preserves :: "('s \<Rightarrow> 'q) \<Rightarrow> ('s, 'a) js \<Rightarrow> bool" where
  "preserves Q f \<longleftrightarrow> (\<forall>s. Q (snd (f s)) = Q s)"

lemma preservesD: "preserves Q f \<Longrightarrow> f s = (r, s') \<Longrightarrow> Q s' = Q s"
  by (auto simp: preserves_def dest: spec[of _ s])

lemma preserves_returns: "preserves Q (returns v)"
  by (simp add: preserves_def returns_def)

lemma preserves_andThen: "preserves Q f \<Longrightarrow> preserves Q g \<Longrightarrow> preserves Q (andThen f g)"
  by (auto simp: preserves_def andThen_def split: prod.splits sum.splits)
     (metis snd_conv)+

lemma preserves_withResult: "preserves Q f \<Longrightarrow> (\<And>v. preserves Q (g v)) \<Longrightarrow> preserves Q (withResult f g)"
  by (auto simp: preserves_def withResult_def split: prod.splits sum.splits)
     (metis snd_conv)+

lemma preserves_if: "preserves Q f \<Longrightarrow> preserves Q g \<Longrightarrow> preserves Q (if b then f else g)"
  by simp

lemma preserves_state_if:
  "preserves Q f \<Longrightarrow> preserves Q g \<Longrightarrow> preserves Q (\<lambda>s. if b s then f s else g s)"
  by (simp add: preserves_def)

lemma preserves_state_arg:
  "(\<And>x. preserves Q (f x)) \<Longrightarrow> preserves Q (\<lambda>s. f (h s) s)"
  by (simp add: preserves_def)

lemma preserves_updateFocusCycleableItems:
  "(\<And>s f. Q (s\<lparr>focusables := f\<rparr>) = Q s) \<Longrightarrow> preserves Q updateFocusCycleableItems"
  unfolding preserves_def
  by (metis updateFocusCycleableItems_frame)


lemma preserves_onChildren: "(\<And>s c. Q (s\<lparr>children := c\<rparr>) = Q s) \<Longrightarrow> preserves Q (onChildren f)"
  by (simp add: preserves_def onChildren_def split: prod.splits)

lemma preserves_onFocusables: "(\<And>s c. Q (s\<lparr>focusables := c\<rparr>) = Q s) \<Longrightarrow> preserves Q (onFocusables f)"
  by (simp add: preserves_def onFocusables_def split: prod.splits)

lemma preserves_onUngroupedItems: "(\<And>s c. Q (s\<lparr>ungroupedItems := c\<rparr>) = Q s) \<Longrightarrow> preserves Q (onUngroupedItems f)"
  by (simp add: preserves_def onUngroupedItems_def split: prod.splits)

lemma preserves_onGroupedItems: "(\<And>s c. Q (s\<lparr>groupedItems := c\<rparr>) = Q s) \<Longrightarrow> preserves Q (onGroupedItems f)"
  by (simp add: preserves_def onGroupedItems_def split: prod.splits)

lemma preserves_onItems: "(\<And>s c. Q (s\<lparr>items := c\<rparr>) = Q s) \<Longrightarrow> preserves Q (onItems f)"
  by (simp add: preserves_def onItems_def split: prod.splits)

lemma preserves_focusTracker_add: "(\<And>s c. Q (s\<lparr>focusTracker := c\<rparr>) = Q s) \<Longrightarrow> preserves Q (focusTracker_add v)"
  by (simp add: preserves_def focusTracker_add_def)

lemma preserves_focusTracker_remove: "(\<And>s c. Q (s\<lparr>focusTracker := c\<rparr>) = Q s) \<Longrightarrow> preserves Q (focusTracker_remove v)"
  by (simp add: preserves_def focusTracker_remove_def)

lemma preserves_new_ToolbarSeparatorView: "(\<And>s c. Q (s\<lparr>viewsCreated := c\<rparr>) = Q s) \<Longrightarrow> preserves Q new_ToolbarSeparatorView"
  by (simp add: preserves_def new_ToolbarSeparatorView_def)

lemma preserves_factory_create: "(\<And>s c. Q (s\<lparr>viewsCreated := c\<rparr>) = Q s) \<Longrightarrow> preserves Q (factory_create name)"
  by (simp add: preserves_def factory_create_def)

lemma preserves_areItemsOverflowing: "(\<And>s c. Q (s\<lparr>cachedPadding := c\<rparr>) = Q s) \<Longrightarrow> preserves Q (areItemsOverflowing env)"
  by (simp add: preserves_def areItemsOverflowing_def Let_def)

lemmas preserves_rules = preserves_returns preserves_andThen preserves_withResult preserves_if
  preserves_state_if preserves_updateFocusCycleableItems preserves_onChildren preserves_onFocusables
  preserves_onUngroupedItems preserves_onGroupedItems preserves_onItems preserves_focusTracker_add
  preserves_focusTracker_remove preserves_new_ToolbarSeparatorView preserves_factory_create
  preserves_areItemsOverflowing

lemma viewChildren_add_ungrouped: "preserves ungroupedItems (viewChildren_add v)"
  unfolding viewChildren_add_def by (intro preserves_rules) simp_all

lemma viewChildren_remove_grouped: "preserves groupedItems (\<lambda>s. viewChildren_remove (h s) s)"
  unfolding viewChildren_remove_def
  by (rule preserves_state_arg) (intro preserves_rules; simp)

lemma length_remove1_less: "x \<in> set xs \<Longrightarrow> length (remove1 x xs) < length xs"
  by (induction xs) auto

lemma ungroupedItems_remove_length:
  assumes "ungroupedItems_remove subject s = (Inr v, s')"
  shows "length (ungroupedItems s') < length (ungroupedItems s)"
proof -
  from assms obtain s1 where s1: "onUngroupedItems (collection_remove subject) s = (Inr v, s1)"
    and s': "updateFocusCycleableItems s1 = (Inr (), s')"
    by (auto simp: ungroupedItems_remove_def withResult_def andThen_def returns_def
        split: prod.splits sum.splits)
  have "preserves ungroupedItems updateFocusCycleableItems"
    by (intro preserves_rules) simp
  then have "ungroupedItems s' = ungroupedItems s1" using s' by (rule preservesD)
  moreover from s1 have "length (ungroupedItems s1) < length (ungroupedItems s)"
    by (auto simp: onUngroupedItems_def collection_remove_def length_remove1_less
        split: option.splits if_splits)
  ultimately show ?thesis by simp
qed

lemma groupLastItem_length:
  assumes "groupLastItem s = (Inr u, s')"
  shows "length (ungroupedItems s') < length (ungroupedItems s)"
proof -
  let ?P = "if groupedItems s = []
        then andThen (withResult new_ToolbarSeparatorView viewChildren_add)
               (andThen (viewChildren_add GroupedItemsDropdown)
                  (focusTracker_add GroupedItemsDropdown))
        else returns ()"
  have P: "preserves ungroupedItems ?P"
    by (intro preserves_rules viewChildren_add_ungrouped) simp_all
  from assms obtain w sA item sB where sA: "?P s = (Inr w, sA)"
    and sB: "ungroupedItems_remove (collection_last (ungroupedItems sA)) sA = (Inr item, sB)"
    and s': "onGroupedItems (collection_add item (Some 0)) sB = (Inr u, s')"
    by (auto simp: groupLastItem_def andThen_def withResult_def split: prod.splits sum.splits)
  have "ungroupedItems sA = ungroupedItems s" using P sA by (rule preservesD)
  moreover have "length (ungroupedItems sB) < length (ungroupedItems sA)"
    using sB by (rule ungroupedItems_remove_length)
  moreover have "ungroupedItems s' = ungroupedItems sB"
    using s' by (auto simp: onGroupedItems_def split: prod.splits)
  ultimately show ?thesis by simp
qed

lemma ungroupFirstItem_length:
  assumes "ungroupFirstItem s = (Inr u, s')"
  shows "length (groupedItems s') < length (groupedItems s)"
proof -
  let ?R = "\<lambda>s. if groupedItems s = []
            then andThen (viewChildren_remove (Some GroupedItemsDropdown))
                   (andThen (\<lambda>s'. viewChildren_remove (collection_last (children s')) s')
                      (focusTracker_remove GroupedItemsDropdown)) s
            else (Inr (), s)"
  have vr: "\<And>subject. preserves groupedItems (viewChildren_remove subject)"
    unfolding viewChildren_remove_def by (intro preserves_rules) simp_all
  have R: "preserves groupedItems ?R"
    unfolding preserves_def
  proof
    fix t
    have "preserves groupedItems (andThen (viewChildren_remove (Some GroupedItemsDropdown))
                   (andThen (\<lambda>s'. viewChildren_remove (collection_last (children s')) s')
                      (focusTracker_remove GroupedItemsDropdown)))"
      by (intro preserves_rules vr viewChildren_remove_grouped) simp_all
    then show "groupedItems (snd (?R t)) = groupedItems t"
      by (simp add: preserves_def)
  qed
  from assms obtain item s1 w s2 where s1: "onGroupedItems (collection_remove (collection_first (groupedItems s))) s = (Inr item, s1)"
    and s2: "ungroupedItems_add item None s1 = (Inr w, s2)"
    and s': "?R s2 = (Inr u, s')"
    by (auto simp: ungroupFirstItem_def andThen_def withResult_def split: prod.splits sum.splits)
  have "preserves groupedItems (ungroupedItems_add item None)"
    unfolding ungroupedItems_add_def by (intro preserves_rules) simp_all
  then have "groupedItems s2 = groupedItems s1" using s2 by (rule preservesD)
  moreover have "groupedItems s' = groupedItems s2" using R s' by (rule preservesD)
  moreover from s1 have "length (groupedItems s1) < length (groupedItems s)"
    by (auto simp: onGroupedItems_def collection_remove_def length_remove1_less
        split: option.splits if_splits)
  ultimately show ?thesis by simp
qed


subsection \<open>\<^verbatim>\<open>_updateGrouping\<close>\<close>

text \<open>
  The first loop, \<^verbatim>\<open>while ( this._areItemsOverflowing ) { this._groupLastItem(); wereItemsGrouped = true; }\<close>;
  its result is \<^verbatim>\<open>wereItemsGrouped\<close>.
\<close>

function groupWhileOverflowing :: "layout \<Rightarrow> bool \<Rightarrow> (toolbar, bool) js" where
  "groupWhileOverflowing env wereItemsGrouped s =
     (case areItemsOverflowing env s of
        (Inl e, s1) \<Rightarrow> (Inl e, s1)
      | (Inr False, s1) \<Rightarrow> (Inr wereItemsGrouped, s1)
      | (Inr True, s1) \<Rightarrow>
          (case groupLastItem s1 of
             (Inl e, s2) \<Rightarrow> (Inl e, s2)
           | (Inr _, s2) \<Rightarrow> groupWhileOverflowing env True s2))"
  by pat_completeness auto
termination
proof (relation "measure (\<lambda>(env, wereItemsGrouped, s). length (ungroupedItems s))")
  show "wf (measure (\<lambda>(env, wereItemsGrouped, s). length (ungroupedItems s)))" by simp
next
  fix env :: layout and wereItemsGrouped :: bool and s s1 s2 :: toolbar
    and r :: "js_error + bool" and b :: bool and r2 :: "js_error + unit" and u :: unit
  assume "(r, s1) = areItemsOverflowing env s" "r = Inr b" "b = True"
    "(r2, s2) = groupLastItem s1" "r2 = Inr u"
  then have a: "areItemsOverflowing env s = (Inr True, s1)" and g: "groupLastItem s1 = (Inr u, s2)"
    by simp_all
  have "preserves ungroupedItems (areItemsOverflowing env)"
    by (intro preserves_rules) simp
  then have "ungroupedItems s1 = ungroupedItems s" using a by (rule preservesD)
  with groupLastItem_length[OF g]
  show "((env, True, s2), (env, wereItemsGrouped, s)) \<in> measure (\<lambda>(env, wereItemsGrouped, s). length (ungroupedItems s))"
    by simp
qed

text \<open>How often the body of the first loop runs.\<close>

function groupingIterations :: "layout \<Rightarrow> toolbar \<Rightarrow> nat" where
  "groupingIterations env s =
     (case areItemsOverflowing env s of
        (Inl e, s1) \<Rightarrow> 0
      | (Inr False, s1) \<Rightarrow> 0
      | (Inr True, s1) \<Rightarrow>
          (case groupLastItem s1 of
             (Inl e, s2) \<Rightarrow> 1
           | (Inr _, s2) \<Rightarrow> Suc (groupingIterations env s2)))"
  by pat_completeness auto
termination
proof (relation "measure (\<lambda>(env, s). length (ungroupedItems s))")
  show "wf (measure (\<lambda>(env, s). length (ungroupedItems s)))" by simp
next
  fix env :: layout and s s1 s2 :: toolbar
    and r :: "js_error + bool" and b :: bool and r2 :: "js_error + unit" and u :: unit
  assume "(r, s1) = areItemsOverflowing env s" "r = Inr b" "b = True"
    "(r2, s2) = groupLastItem s1" "r2 = Inr u"
  then have a: "areItemsOverflowing env s = (Inr True, s1)" and g: "groupLastItem s1 = (Inr u, s2)"
    by simp_all
  have "preserves ungroupedItems (areItemsOverflowing env)"
    by (intro preserves_rules) simp
  then have "ungroupedItems s1 = ungroupedItems s" using a by (rule preservesD)
  with groupLastItem_length[OF g]
  show "((env, s2), (env, s)) \<in> measure (\<lambda>(env, s). length (ungroupedItems s))"
    by simp
qed

text \<open>
  The second loop,
  \<^verbatim>\<open>while ( this.groupedItems.length && !this._areItemsOverflowing ) { this._ungroupFirstItem(); }\<close>.
\<close>

function ungroupWhileFitting :: "layout \<Rightarrow> (toolbar, unit) js" where
  "ungroupWhileFitting env s =
     (if groupedItems s = [] then (Inr (), s)
      else case areItemsOverflowing env s of
             (Inl e, s1) \<Rightarrow> (Inl e, s1)
           | (Inr True, s1) \<Rightarrow> (Inr (), s1)
           | (Inr False, s1) \<Rightarrow>
               (case ungroupFirstItem s1 of
                  (Inl e, s2) \<Rightarrow> (Inl e, s2)
                | (Inr _, s2) \<Rightarrow> ungroupWhileFitting env s2))"
  by pat_completeness auto
termination
proof (relation "measure (\<lambda>(env, s). length (groupedItems s))")
  show "wf (measure (\<lambda>(env, s). length (groupedItems s)))" by simp
next
  fix env :: layout and s s1 s2 :: toolbar
    and r :: "js_error + bool" and b :: bool and r2 :: "js_error + unit" and u :: unit
  assume "(r, s1) = areItemsOverflowing env s" "r = Inr b" "b = False"
    "(r2, s2) = ungroupFirstItem s1" "r2 = Inr u"
  then have a: "areItemsOverflowing env s = (Inr False, s1)" and g: "ungroupFirstItem s1 = (Inr u, s2)"
    by simp_all
  have "preserves groupedItems (areItemsOverflowing env)"
    by (intro preserves_rules) simp
  then have "groupedItems s1 = groupedItems s" using a by (rule preservesD)
  with ungroupFirstItem_length[OF g]
  show "((env, s2), (env, s)) \<in> measure (\<lambda>(env, s). length (groupedItems s))"
    by simp
qed

text \<open>How often the body of the second loop runs.\<close>

function ungroupingIterations :: "layout \<Rightarrow> toolbar \<Rightarrow> nat" where
  "ungroupingIterations env s =
     (if groupedItems s = [] then 0
      else case areItemsOverflowing env s of
             (Inl e, s1) \<Rightarrow> 0
           | (Inr True, s1) \<Rightarrow> 0
           | (Inr False, s1) \<Rightarrow>
               (case ungroupFirstItem s1 of
                  (Inl e, s2) \<Rightarrow> 1
                | (Inr _, s2) \<Rightarrow> Suc (ungroupingIterations env s2)))"
  by pat_completeness auto
termination
proof (relation "measure (\<lambda>(env, s). length (groupedItems s))")
  show "wf (measure (\<lambda>(env, s). length (groupedItems s)))" by simp
next
  fix env :: layout and s s1 s2 :: toolbar
    and r :: "js_error + bool" and b :: bool and r2 :: "js_error + unit" and u :: unit
  assume "(r, s1) = areItemsOverflowing env s" "r = Inr b" "b = False"
    "(r2, s2) = ungroupFirstItem s1" "r2 = Inr u"
  then have a: "areItemsOverflowing env s = (Inr False, s1)" and g: "ungroupFirstItem s1 = (Inr u, s2)"
    by simp_all
  have "preserves groupedItems (areItemsOverflowing env)"
    by (intro preserves_rules) simp
  then have "groupedItems s1 = groupedItems s" using a by (rule preservesD)
  with ungroupFirstItem_length[OF g]
  show "((env, s2), (env, s)) \<in> measure (\<lambda>(env, s). length (groupedItems s))"
    by simp
qed


text \<open>The equations of the four loop functions are unfolded on demand only.\<close>

declare groupWhileOverflowing.simps [simp del]

declare groupingIterations.simps [simp del]

declare ungroupWhileFitting.simps [simp del]

declare ungroupingIterations.simps [simp del]

definition updateGrouping :: "layout \<Rightarrow> (toolbar, unit) js" where
  "updateGrouping env s =
     (if \<not> hasViewElement s then (Inl TypeError, s)
      else if \<not> inDocumentBody env then (Inr (), s)
      else withResult (groupWhileOverflowing env False)
             (\<lambda>wereItemsGrouped s1.
                if \<not> wereItemsGrouped \<and> groupedItems s1 \<noteq> []
                then andThen (ungroupWhileFitting env)
                       (withResult (areItemsOverflowing env)
                          (\<lambda>overflowing. if overflowing then groupLastItem else returns ())) s1
                else (Inr (), s1)) s)"

definition enableGroupingOnResize :: "layout \<Rightarrow> (toolbar, unit) js" where
  "enableGroupingOnResize env s =
     updateGrouping env (s\<lparr>resizeObserver := Some Observing, previousWidth := None\<rparr>)"

text \<open>The callback given to \<^verbatim>\<open>getResizeObserver\<close>, called with the new content width.\<close>

definition resizeCallback :: "layout \<Rightarrow> real \<Rightarrow> (toolbar, unit) js" where
  "resizeCallback env width s =
     (if previousWidth s = None \<or> previousWidth s = Some 0 \<or> previousWidth s \<noteq> Some width
      then andThen (updateGrouping env) (\<lambda>s'. (Inr (), s'\<lparr>previousWidth := Some width\<rparr>)) s
      else (Inr (), s))"

definition DynamicGrouping_render :: "layout \<Rightarrow> (toolbar, unit) js" where
  "DynamicGrouping_render env s = enableGroupingOnResize env (s\<lparr>hasViewElement := True\<rparr>)"

definition DynamicGrouping_destroy :: "(toolbar, unit) js" where
  "DynamicGrouping_destroy =
     andThen (\<lambda>s. (Inr (), s\<lparr>dropdownDestroyed := True\<rparr>))
       (\<lambda>s. case resizeObserver s of
              None \<Rightarrow> (Inl TypeError, s)
            | Some _ \<Rightarrow> (Inr (), s\<lparr>resizeObserver := Some Disconnected\<rparr>))"

text \<open>The listeners of \<^verbatim>\<open>view.items\<close> that \<^verbatim>\<open>DynamicGrouping\<close> registers in its constructor.\<close>

definition DynamicGrouping_onItemsAdd :: "layout \<Rightarrow> view \<Rightarrow> nat \<Rightarrow> (toolbar, unit) js" where
  "DynamicGrouping_onItemsAdd env item index s =
     andThen
       (if index > length (ungroupedItems s)
        then onGroupedItems (collection_add item (Some (index - length (ungroupedItems s))))
        else ungroupedItems_add item (Some index))
       (updateGrouping env) s"

definition DynamicGrouping_onItemsRemove :: "layout \<Rightarrow> view \<Rightarrow> nat \<Rightarrow> (toolbar, unit) js" where
  "DynamicGrouping_onItemsRemove env item index s =
     andThen
       (if index > length (ungroupedItems s)
        then onGroupedItems (collection_remove (Some item))
        else ungroupedItems_remove (Some item))
       (updateGrouping env) s"

subsection \<open>\<^verbatim>\<open>StaticLayout\<close>\<close>

text \<open>
  \<^verbatim>\<open>view.focusables.bindTo( view.items )\<close>: every item added to or removed from the
  items is added to or removed from the focusables, at the same index. The children of
  the items view are bound in the same way and are not a field of their own.
\<close>

definition StaticLayout_onItemsAdd :: "view \<Rightarrow> nat \<Rightarrow> (toolbar, unit) js" where
  "StaticLayout_onItemsAdd item index = onFocusables (collection_add item (Some index))"

definition StaticLayout_onItemsRemove :: "view \<Rightarrow> (toolbar, view) js" where
  "StaticLayout_onItemsRemove item = onFocusables (collection_remove (Some item))"

definition itemsViewChildren :: "toolbar \<Rightarrow> view list" where
  "itemsViewChildren s = (if shouldGroupWhenFull s then ungroupedItems s else items s)"

subsection \<open>\<^verbatim>\<open>ToolbarView\<close>\<close>

text \<open>
  \<^verbatim>\<open>items.add\<close> and \<^verbatim>\<open>items.remove\<close> change the collection and then fire the event.
  The listener of the behavior was registered in the constructor and runs first; the
  listener that keeps the focus tracker up to date is registered by \<^verbatim>\<open>render\<close>. A
  listener that throws ends the dispatch.
\<close>

definition items_add :: "layout \<Rightarrow> view \<Rightarrow> nat option \<Rightarrow> (toolbar, unit) js" where
  "items_add env item index s =
     (let i = (case index of None \<Rightarrow> length (items s) | Some i \<Rightarrow> i)
      in andThen (onItems (collection_add item index))
           (andThen
              (if shouldGroupWhenFull s
               then DynamicGrouping_onItemsAdd env item i
               else StaticLayout_onItemsAdd item i)
              (\<lambda>s'. if isRendered s' then focusTracker_add item s' else (Inr (), s'))) s)"

definition items_remove :: "layout \<Rightarrow> view \<Rightarrow> (toolbar, unit) js" where
  "items_remove env item s =
     (let i = getIndex item (items s)
      in andThen (onItems (collection_remove (Some item)))
           (andThen
              (if shouldGroupWhenFull s
               then DynamicGrouping_onItemsRemove env item i
               else andThen (StaticLayout_onItemsRemove item) (returns ()))
              (\<lambda>s'. if isRendered s' then focusTracker_remove item s' else (Inr (), s'))) s)"

text \<open>
  \<^verbatim>\<open>render\<close>: the inherited \<^verbatim>\<open>View.render\<close> (a view is rendered once), the items that
  are there already become known to the focus tracker, and the behavior is rendered.
\<close>

definition ToolbarView_render :: "layout \<Rightarrow> (toolbar, unit) js" where
  "ToolbarView_render env s =
     (if isRendered s then (Inl (CKEditorError ''ui-view-render-already-rendered''), s)
      else andThen
             (\<lambda>s0. (Inr (), s0\<lparr>isRendered := True,
                                focusTracker := fold tracker_add (items s0) (focusTracker s0)\<rparr>))
             (if shouldGroupWhenFull s then DynamicGrouping_render env else returns ()) s)"

definition ToolbarView_destroy :: "(toolbar, unit) js" where
  "ToolbarView_destroy s =
     andThen (if shouldGroupWhenFull s then DynamicGrouping_destroy else returns ())
       (\<lambda>s'. (Inr (), s'\<lparr>isDestroyed := True\<rparr>)) s"

definition warn :: "string \<Rightarrow> (toolbar, unit) js" where
  "warn name s = (Inr (), s\<lparr>warnings := warnings s @ [name]\<rparr>)"

text \<open>\<^verbatim>\<open>fillFromConfig( config, factory )\<close>; \<open>factory\<close> is \<^verbatim>\<open>factory.has\<close>.\<close>

fun fillFromConfig :: "layout \<Rightarrow> string list \<Rightarrow> (string \<Rightarrow> bool) \<Rightarrow> (toolbar, unit) js" where
  "fillFromConfig env [] factory = returns ()"
| "fillFromConfig env (name # config) factory =
     andThen
       (if name = ''|'' then withResult new_ToolbarSeparatorView (\<lambda>v. items_add env v None)
        else if factory name then withResult (factory_create name) (\<lambda>v. items_add env v None)
        else warn name)
       (fillFromConfig env config factory)"

section \<open>Concrete inputs\<close>

subsection \<open>Documents\<close>

text \<open>Collaborators that never throw.\<close>

definition quietCollaborators :: "(unit, unit) collaborators" where
  "quietCollaborators =
     \<lparr>bindElements = (\<lambda>domElement viewElement. returns ()),
      markToSync = (\<lambda>type node. returns ()),
      rendererRender = returns ()\<rparr>"

text \<open>
  Collaborators with a DOM converter that rejects \<^verbatim>\<open>undefined\<close> as a view element and a
  renderer whose reconciliation throws.
\<close>

definition strictCollaborators :: "(unit, unit) collaborators" where
  "strictCollaborators =
     \<lparr>bindElements = (\<lambda>domElement viewElement.
        case viewElement of None \<Rightarrow> throws TypeError | Some _ \<Rightarrow> returns ()),
      markToSync = (\<lambda>type node. returns ()),
      rendererRender = throws (RenderingError ''reconciliation failed'')\<rparr>"

definition editable :: dom_element where
  "editable = \<lparr>domId = 7, tagName = ''DIV'', isHTMLElement = True\<rparr>"

definition emptyDocument :: "(unit, unit) document" where
  "emptyDocument = Document_new () ()"

definition observedDocument :: "(unit, unit) document" where
  "observedDocument = snd (addObserver 0 emptyDocument)"

definition divDocument :: "(unit, unit) document" where
  "divDocument = snd (createRoot quietCollaborators (TagName ''div'') main emptyDocument)"

definition rootedDocument :: "(unit, unit) document" where
  "rootedDocument = snd (createRoot quietCollaborators (Element editable) main emptyDocument)"


subsection \<open>Toolbars\<close>

text \<open>
  A left-to-right toolbar in the document body: every item is 50 wide, the separator and
  the dropdown together 20, the padding 5. The narrow toolbar is 100 wide and holds one item
  beside the dropdown; the wide one is 130 wide and holds two. All edges are whole numbers
  far below \<open>2\<^sup>5\<^sup>3\<close>, so that their sums and differences are doubles and the rounding
  leaves them as they are.
\<close>

definition narrowLayout :: layout where
  "narrowLayout =
     \<lparr>inDocumentBody = True,
      lastChildRect = (\<lambda>shown ch.
        \<lparr>rectLeft = 0,
         rectRight = 50 * real (length shown) + (if GroupedItemsDropdown \<in> set ch then 20 else 0)\<rparr>),
      toolbarRect = (\<lambda>shown ch. \<lparr>rectLeft = 0, rectRight = 100\<rparr>),
      paddingRight = Num 5, paddingLeft = Num 5,
      nearestDouble = (\<lambda>x. x)\<rparr>"

definition wideLayout :: layout where
  "wideLayout = narrowLayout\<lparr>toolbarRect := (\<lambda>shown ch. \<lparr>rectLeft = 0, rectRight = 130\<rparr>)\<rparr>"

definition bold :: view where
  "bold = ComponentView ''bold'' 100"

definition italic :: view where
  "italic = ComponentView ''italic'' 101"

definition link :: view where
  "link = ComponentView ''link'' 102"

text \<open>A grouping toolbar, rendered, to which first \<open>bold\<close> and then \<open>italic\<close> were added.\<close>

definition renderedToolbar :: toolbar where
  "renderedToolbar = snd (ToolbarView_render narrowLayout (ToolbarView_new ''ltr'' True))"

definition twoItemToolbar :: toolbar where
  "twoItemToolbar =
     snd (items_add narrowLayout italic None (snd (items_add narrowLayout bold None renderedToolbar)))"

definition threeItemToolbar :: toolbar where
  "threeItemToolbar = snd (items_add narrowLayout link None twoItemToolbar)"

text \<open>The three-item toolbar after the toolbar was widened.\<close>

definition widenedToolbar :: toolbar where
  "widenedToolbar = snd (updateGrouping wideLayout threeItemToolbar)"

text \<open>
  The same toolbar from right to left: the items are laid out from the right edge, the last
  child is the leftmost one, and the padding that counts is the left one. The wide toolbar
  reaches 30 further to the left.
\<close>

definition mirroredLayout :: layout where
  "mirroredLayout =
     \<lparr>inDocumentBody = True,
      lastChildRect = (\<lambda>shown ch.
        \<lparr>rectLeft = 100 - (50 * real (length shown) + (if GroupedItemsDropdown \<in> set ch then 20 else 0)),
         rectRight = 100\<rparr>),
      toolbarRect = (\<lambda>shown ch. \<lparr>rectLeft = 0, rectRight = 100\<rparr>),
      paddingRight = NaN, paddingLeft = Num 5,
      nearestDouble = (\<lambda>x. x)\<rparr>"

definition mirroredWideLayout :: layout where
  "mirroredWideLayout =
     mirroredLayout\<lparr>toolbarRect := (\<lambda>shown ch. \<lparr>rectLeft = - 30, rectRight = 100\<rparr>)\<rparr>"

text \<open>
  A right-to-left grouping toolbar, rendered, to which \<open>bold\<close> and \<open>italic\<close> were added,
  and that toolbar after it was widened.
\<close>

definition rtlToolbar :: toolbar where
  "rtlToolbar =
     snd (items_add mirroredLayout italic None
       (snd (items_add mirroredLayout bold None
         (snd (ToolbarView_render mirroredLayout (ToolbarView_new ''rtl'' True))))))"

definition rtlWidenedToolbar :: toolbar where
  "rtlWidenedToolbar = snd (updateGrouping mirroredWideLayout rtlToolbar)"

section \<open>Notions the properties are stated with\<close>

text \<open>What the focusables are derived from: the ungrouped items, and the dropdown when something is grouped.\<close>

definition focusCycleable :: "toolbar \<Rightarrow> view list" where
  "focusCycleable s =
     ungroupedItems s @ (if groupedItems s \<noteq> [] then [GroupedItemsDropdown] else [])"

text \<open>
  The toolbars that \<^verbatim>\<open>_updateGrouping\<close> meets once the toolbar is rendered: the
  behavior is \<^verbatim>\<open>DynamicGrouping\<close>, \<^verbatim>\<open>viewElement\<close> is assigned, no view is in the two
  parts twice, the dropdown is not an item of its own toolbar, and the children are the items
  view alone while nothing is grouped and the items view, a separator and the dropdown
  otherwise.
\<close>

fun groupedChildren :: "view list \<Rightarrow> bool" where
  "groupedChildren [ItemsView, ToolbarSeparatorView n, GroupedItemsDropdown] = True"
| "groupedChildren _ = False"

definition grouping_wf :: "toolbar \<Rightarrow> bool" where
  "grouping_wf s \<longleftrightarrow>
     shouldGroupWhenFull s \<and> hasViewElement s
     \<and> distinct (ungroupedItems s @ groupedItems s)
     \<and> GroupedItemsDropdown \<notin> set (ungroupedItems s @ groupedItems s)
     \<and> (if groupedItems s = [] then children s = [ItemsView] else groupedChildren (children s))"

text \<open>
  The padding a measurement uses: the cached one, or the one read from the computed style
  when the cache is \<^verbatim>\<open>null\<close>, \<^verbatim>\<open>NaN\<close> or zero.
\<close>

definition effectivePadding :: "layout \<Rightarrow> toolbar \<Rightarrow> js_number option" where
  "effectivePadding env s =
     (if falsy (cachedPadding s)
      then Some (if uiLanguageDirection s = ''ltr'' then paddingRight env else paddingLeft env)
      else cachedPadding s)"

text \<open>Whether the toolbar overflows when it shows the items \<open>shown\<close> and has the children \<open>ch\<close>.\<close>

definition overflowsWith :: "layout \<Rightarrow> toolbar \<Rightarrow> view list \<Rightarrow> view list \<Rightarrow> bool" where
  "overflowsWith env s shown ch \<longleftrightarrow>
     shown \<noteq> []
     \<and> (if uiLanguageDirection s = ''ltr''
        then exceedsRight (nearestDouble env) (rectRight (lastChildRect env shown ch))
               (rectRight (toolbarRect env shown ch)) (effectivePadding env s)
        else exceedsLeft (nearestDouble env) (rectLeft (lastChildRect env shown ch))
               (rectLeft (toolbarRect env shown ch)) (effectivePadding env s))"

text \<open>What \<^verbatim>\<open>_areItemsOverflowing\<close> answers in a state.\<close>

definition isOverflowing :: "layout \<Rightarrow> toolbar \<Rightarrow> bool" where
  "isOverflowing env s \<longleftrightarrow> fst (areItemsOverflowing env s) = Inr True"

text \<open>
  Whether the toolbar overflows with its first \<open>k\<close> items ungrouped and the others grouped.
\<close>

definition childrenFor :: "view list \<Rightarrow> view list" where
  "childrenFor grouped =
     (if grouped = [] then [ItemsView]
      else [ItemsView, ToolbarSeparatorView 0, GroupedItemsDropdown])"

definition arranged :: "toolbar \<Rightarrow> nat \<Rightarrow> toolbar" where
  "arranged s k =
     s\<lparr>ungroupedItems := take k (ungroupedItems s @ groupedItems s),
       groupedItems := drop k (ungroupedItems s @ groupedItems s),
       children := childrenFor (drop k (ungroupedItems s @ groupedItems s))\<rparr>"

definition overflowsAt :: "layout \<Rightarrow> toolbar \<Rightarrow> nat \<Rightarrow> bool" where
  "overflowsAt env s k = isOverflowing env (arranged s k)"

text \<open>The layout does not depend on which separator object stands before the dropdown.\<close>

definition separatorBlind :: "layout \<Rightarrow> bool" where
  "separatorBlind env \<longleftrightarrow>
     (\<forall>shown n.
        lastChildRect env shown [ItemsView, ToolbarSeparatorView n, GroupedItemsDropdown]
          = lastChildRect env shown [ItemsView, ToolbarSeparatorView 0, GroupedItemsDropdown]
        \<and> toolbarRect env shown [ItemsView, ToolbarSeparatorView n, GroupedItemsDropdown]
          = toolbarRect env shown [ItemsView, ToolbarSeparatorView 0, GroupedItemsDropdown])"

text \<open>Two toolbar states measure alike: same text direction, same padding in use.\<close>

definition sameMeasure :: "layout \<Rightarrow> toolbar \<Rightarrow> toolbar \<Rightarrow> bool" where
  "sameMeasure env s s' \<longleftrightarrow>
     uiLanguageDirection s' = uiLanguageDirection s \<and> effectivePadding env s' = effectivePadding env s"


text \<open>
  A quantity that a grouping step does not touch: it does not depend on the children, the
  focusables, the focus tracker, the two parts of the items or the number of views
  constructed. A quantity that the whole of \<^verbatim>\<open>_updateGrouping\<close> does not touch does not
  depend on the cached padding either.
\<close>

definition stepFrame :: "(toolbar \<Rightarrow> 'q) \<Rightarrow> bool" where
  "stepFrame Q \<longleftrightarrow>
     (\<forall>s c. Q (s\<lparr>children := c\<rparr>) = Q s) \<and> (\<forall>s c. Q (s\<lparr>focusables := c\<rparr>) = Q s)
     \<and> (\<forall>s c. Q (s\<lparr>focusTracker := c\<rparr>) = Q s) \<and> (\<forall>s c. Q (s\<lparr>viewsCreated := c\<rparr>) = Q s)
     \<and> (\<forall>s c. Q (s\<lparr>ungroupedItems := c\<rparr>) = Q s) \<and> (\<forall>s c. Q (s\<lparr>groupedItems := c\<rparr>) = Q s)"

definition groupingFrame :: "(toolbar \<Rightarrow> 'q) \<Rightarrow> bool" where
  "groupingFrame Q \<longleftrightarrow> stepFrame Q \<and> (\<forall>s c. Q (s\<lparr>cachedPadding := c\<rparr>) = Q s)"

text \<open>
  A quantity that no call on the items touches: the grouping does not touch it, and it does
  not depend on the items or on the warnings.
\<close>

definition callFrame :: "(toolbar \<Rightarrow> 'q) \<Rightarrow> bool" where
  "callFrame Q \<longleftrightarrow>
     groupingFrame Q \<and> (\<forall>s c. Q (s\<lparr>items := c\<rparr>) = Q s) \<and> (\<forall>s c. Q (s\<lparr>warnings := c\<rparr>) = Q s)"

text \<open>
  What a client does with a toolbar it has not rendered: it adds items, removes items and
  fills the toolbar from a configuration. An exception of a call is the client's to handle;
  the toolbar stays as the call left it.
\<close>

datatype toolbar_call =
  AddItem view "nat option"
| RemoveItem view
| FillFromConfig "string list" "string \<Rightarrow> bool"

fun call :: "layout \<Rightarrow> toolbar_call \<Rightarrow> (toolbar, unit) js" where
  "call env (AddItem item index) = items_add env item index"
| "call env (RemoveItem item) = items_remove env item"
| "call env (FillFromConfig config factory) = fillFromConfig env config factory"

definition afterCalls :: "layout \<Rightarrow> toolbar_call list \<Rightarrow> toolbar \<Rightarrow> toolbar" where
  "afterCalls env calls s = fold (\<lambda>c t. snd (call env c t)) calls s"

text \<open>
  A toolbar that is ready to take items. The views among its items were constructed before
  (their numbers are below \<open>viewsCreated\<close>, so that a view constructed now is a new one).
  With the static layout the focusables mirror the items; with dynamic grouping the
  toolbar is rendered and in the shape \<open>grouping_wf\<close>, and the items are the ungrouped
  items followed by the grouped ones.
\<close>

fun createdBefore :: "nat \<Rightarrow> view \<Rightarrow> bool" where
  "createdBefore n (ToolbarSeparatorView k) = (k < n)"
| "createdBefore n (ComponentView name k) = (k < n)"
| "createdBefore n ItemsView = True"
| "createdBefore n GroupedItemsDropdown = False"

definition itemsInParts :: "toolbar \<Rightarrow> bool" where
  "itemsInParts s \<longleftrightarrow>
     (if shouldGroupWhenFull s
      then grouping_wf s \<and> items s = ungroupedItems s @ groupedItems s
      else focusables s = items s)"

definition toolbar_ready :: "toolbar \<Rightarrow> bool" where
  "toolbar_ready s \<longleftrightarrow> list_all (createdBefore (viewsCreated s)) (items s) \<and> itemsInParts s"

text \<open>The view that \<^verbatim>\<open>fillFromConfig\<close> adds for a name of the configuration.\<close>

fun isViewFor :: "string \<Rightarrow> view \<Rightarrow> bool" where
  "isViewFor name (ToolbarSeparatorView k) = (name = ''|'')"
| "isViewFor name (ComponentView component k) = (name \<noteq> ''|'' \<and> component = name)"
| "isViewFor name ItemsView = False"
| "isViewFor name GroupedItemsDropdown = False"

text \<open>A static toolbar, and a factory that knows three components.\<close>

definition staticToolbar :: toolbar where
  "staticToolbar = ToolbarView_new ''ltr'' False"

definition basicStyles :: "string \<Rightarrow> bool" where
  "basicStyles name \<longleftrightarrow> name = ''bold'' \<or> name = ''italic'' \<or> name = ''link''"

definition exampleConfig :: "string list" where
  "exampleConfig = [''bold'', ''italic'', ''|'', ''link'', ''foo'']"

section \<open>Properties of the view document\<close>

lemmas js_defs = returns_def throws_def andThen_def withResult_def completed_def Let_def

lemmas doc_defs = onConverter_def onRenderer_def forEachObserver_def getObserver_def getRoot_def
  getDomRoot_def addObserver_def attachDomRoot_def createRoot_def render_def Document_new_def
  new_Observer_def observe_def enable_def disable_def main_def

lemmas doc_examples = quietCollaborators_def strictCollaborators_def editable_def
  emptyDocument_def observedDocument_def divDocument_def rootedDocument_def

subsection \<open>Rendering and the observers\<close>

text \<open>
  Claim C1, as the specification has it: \<^verbatim>\<open>render()\<close> disables every observer, has the
  renderer reconcile, and enables every observer again, also when the reconciliation
  throws. The source has no \<^verbatim>\<open>try\<close>/\<^verbatim>\<open>finally\<close>: with a renderer that throws, the
  exception leaves \<^verbatim>\<open>render()\<close> and the observer that was enabled before stays disabled.
\<close>

theorem render_not_exception_safe:
  "map_option isEnabled (getObserver observedDocument 0) = Some True
   \<and> fst (render strictCollaborators observedDocument) = Inl (RenderingError ''reconciliation failed'')
   \<and> map_option isEnabled (getObserver (snd (render strictCollaborators observedDocument)) 0)
       = Some False"
  by (simp add: js_defs doc_defs doc_examples)

text \<open>
  Claim C1, amended: \<^verbatim>\<open>render()\<close> disables every registered observer and then has the
  renderer reconcile, once. Its outcome is the outcome of the reconciliation. When the
  reconciliation returns, every observer is enabled afterwards; when it throws, the
  exception is passed on and every observer is left disabled. Nothing else of an observer
  and nothing else of the document changes.
\<close>

theorem render_observer_bracket:
  "render env d =
     (fst (rendererRender env (renderer d)),
      d\<lparr>renderer := snd (rendererRender env (renderer d)),
        observers :=
          map (\<lambda>(ctor, ob). (ctor, ob\<lparr>isEnabled := completed (rendererRender env (renderer d))\<rparr>))
            (observers d)\<rparr>)"
  by (cases "rendererRender env (renderer d)")
     (auto simp: js_defs doc_defs split: sum.splits prod.splits)

subsection \<open>The registry of roots\<close>


lemma attachDomRoot_domRoots:
  "domRoots (snd (attachDomRoot env el name d)) = AList.update name el (domRoots d)"
  by (auto simp: js_defs doc_defs split: sum.splits prod.splits)




text \<open>
  Claim C5, as the specification has it: \<^verbatim>\<open>attachDomRoot\<close> for a name without a view root
  fails or does nothing, and records no DOM root. In the source the DOM root is recorded
  before anything else is done: with collaborators that accept \<^verbatim>\<open>undefined\<close> the call
  returns, with a DOM converter that rejects it the call throws, and in both cases
  \<^verbatim>\<open>getDomRoot( 'main' )\<close> is the element afterwards.
\<close>

theorem attachDomRoot_records_without_view_root:
  "getRoot emptyDocument main = None
   \<and> fst (attachDomRoot quietCollaborators editable main emptyDocument) = Inr ()
   \<and> getDomRoot (snd (attachDomRoot quietCollaborators editable main emptyDocument)) main
       = Some editable
   \<and> fst (attachDomRoot strictCollaborators editable main emptyDocument) = Inl TypeError
   \<and> getDomRoot (snd (attachDomRoot strictCollaborators editable main emptyDocument)) main
       = Some editable"
  by (simp add: js_defs doc_defs doc_examples)

text \<open>
  Claim C5, amended: \<^verbatim>\<open>attachDomRoot( domElement, name )\<close> does not check that a view
  root of that name exists. It records the DOM root under the name first, so that
  \<^verbatim>\<open>getDomRoot( name )\<close> is the element afterwards whether the later steps return or
  throw, and it hands the view root it found, \<^verbatim>\<open>undefined\<close> when there is none, to the DOM
  converter and to the renderer. The call throws exactly when \<^verbatim>\<open>bindElements\<close> or
  \<^verbatim>\<open>markToSync\<close> throws, with that exception; the renderer is not reached when the
  converter threw; and when both returned, every registered observer observes the element
  under the name and nothing else of the document has changed.
\<close>

theorem attachDomRoot_records_dom_root:
  "attachDomRoot env domElement name d =
     (let bound = bindElements env domElement (getRoot d name) (domConverter d);
          marked = markToSync env CHILDREN (getRoot d name) (renderer d);
          recorded = d\<lparr>domRoots := AList.update name domElement (domRoots d),
                       domConverter := snd bound\<rparr>
      in if completed bound
         then if completed marked
              then (Inr (),
                    recorded\<lparr>renderer := snd marked,
                      observers :=
                        map (\<lambda>(ctor, ob). (ctor, ob\<lparr>observed := observed ob @ [(domElement, name)]\<rparr>))
                          (observers d)\<rparr>)
              else (Inl (projl (fst marked)), recorded\<lparr>renderer := snd marked\<rparr>)
         else (Inl (projl (fst bound)), recorded))
   \<and> getDomRoot (snd (attachDomRoot env domElement name d)) name = Some domElement"
proof
  show "getDomRoot (snd (attachDomRoot env domElement name d)) name = Some domElement"
    by (simp add: getDomRoot_def attachDomRoot_domRoots update_conv')
  show "attachDomRoot env domElement name d =
     (let bound = bindElements env domElement (getRoot d name) (domConverter d);
          marked = markToSync env CHILDREN (getRoot d name) (renderer d);
          recorded = d\<lparr>domRoots := AList.update name domElement (domRoots d),
                       domConverter := snd bound\<rparr>
      in if completed bound
         then if completed marked
              then (Inr (),
                    recorded\<lparr>renderer := snd marked,
                      observers :=
                        map (\<lambda>(ctor, ob). (ctor, ob\<lparr>observed := observed ob @ [(domElement, name)]\<rparr>))
                          (observers d)\<rparr>)
              else (Inl (projl (fst marked)), recorded\<lparr>renderer := snd marked\<rparr>)
         else (Inl (projl (fst bound)), recorded))"
    by (cases "bindElements env domElement (getRoot d name) (domConverter d)";
        cases "markToSync env CHILDREN (getRoot d name) (renderer d)")
       (auto simp: js_defs doc_defs split: sum.splits prod.splits)
qed

subsection \<open>The registry of observers\<close>

lemma fold_observe:
  "fold (\<lambda>(name, domElement). observe domElement name) roots ob =
     ob\<lparr>observed := observed ob @ map (\<lambda>(name, domElement). (domElement, name)) roots\<rparr>"
  by (induction roots arbitrary: ob) (auto simp: observe_def)

lemma update_absent: "map_of al k = None \<Longrightarrow> AList.update k v al = al @ [(k, v)]"
  by (induction al) (auto split: if_splits)

lemma addObserver_registered:
  "fst ` set (observers (snd (addObserver T d))) = insert T (fst ` set (observers d))"
  by (auto simp: addObserver_def Let_def dom_update split: option.splits dest: map_of_SomeD)
     (force dest: map_of_SomeD)+

lemma registered_after_all:
  "fst ` set (observers (fold (\<lambda>T d. snd (addObserver T d)) Ts d)) = set Ts \<union> fst ` set (observers d)"
  by (induction Ts arbitrary: d) (auto simp: addObserver_registered)

text \<open>
  Claim C6: the first \<^verbatim>\<open>addObserver( T )\<close> constructs one observer, attaches it to every
  DOM root there is, in their order, enables it and stores it under \<open>T\<close>. When an observer
  is stored under \<open>T\<close>, \<^verbatim>\<open>addObserver( T )\<close> returns that observer and changes nothing:
  no observer is constructed, attached or enabled. So a second call returns what the first
  returned and leaves the document as the first left it. \<^verbatim>\<open>getObserver( T )\<close> is the
  observer stored, and it is \<^verbatim>\<open>undefined\<close> exactly when \<open>T\<close> is none of the types added since
  the document was created.
\<close>

theorem addObserver_once_per_type:
  "(getObserver d T = None \<longrightarrow>
      addObserver T d =
        (Inr \<lparr>instanceId = objectsCreated d, observerType = T,
              observed = map (\<lambda>(name, domElement). (domElement, name)) (domRoots d),
              isEnabled = True\<rparr>,
         d\<lparr>objectsCreated := Suc (objectsCreated d),
           observers := observers d @
             [(T, \<lparr>instanceId = objectsCreated d, observerType = T,
                   observed = map (\<lambda>(name, domElement). (domElement, name)) (domRoots d),
                   isEnabled = True\<rparr>)]\<rparr>))
   \<and> (\<forall>ob. getObserver d T = Some ob \<longrightarrow> addObserver T d = (Inr ob, d))
   \<and> addObserver T (snd (addObserver T d)) = addObserver T d
   \<and> getObserver (snd (addObserver T d)) T = Some (projr (fst (addObserver T d)))
   \<and> (getObserver (fold (\<lambda>T d. snd (addObserver T d)) Ts (Document_new conv rend)) T = None
        \<longleftrightarrow> T \<notin> set Ts)"
proof (intro conjI impI allI)
  assume "getObserver d T = None"
  then show "addObserver T d =
        (Inr \<lparr>instanceId = objectsCreated d, observerType = T,
              observed = map (\<lambda>(name, domElement). (domElement, name)) (domRoots d),
              isEnabled = True\<rparr>,
         d\<lparr>objectsCreated := Suc (objectsCreated d),
           observers := observers d @
             [(T, \<lparr>instanceId = objectsCreated d, observerType = T,
                   observed = map (\<lambda>(name, domElement). (domElement, name)) (domRoots d),
                   isEnabled = True\<rparr>)]\<rparr>)"
    by (simp add: getObserver_def addObserver_def Let_def fold_observe update_absent
        new_Observer_def enable_def)
next
  fix ob assume "getObserver d T = Some ob"
  then show "addObserver T d = (Inr ob, d)"
    by (simp add: getObserver_def addObserver_def)
next
  show "addObserver T (snd (addObserver T d)) = addObserver T d"
    by (cases "map_of (observers d) T")
       (simp_all add: addObserver_def Let_def update_conv')
next
  show "getObserver (snd (addObserver T d)) T = Some (projr (fst (addObserver T d)))"
    by (cases "map_of (observers d) T")
       (simp_all add: getObserver_def addObserver_def Let_def update_conv')
next
  have "fst ` set (observers (fold (\<lambda>T d. snd (addObserver T d)) Ts (Document_new conv rend))) = set Ts"
    by (simp add: registered_after_all Document_new_def)
  then show "getObserver (fold (\<lambda>T d. snd (addObserver T d)) Ts (Document_new conv rend)) T = None
        \<longleftrightarrow> T \<notin> set Ts"
    by (simp add: getObserver_def map_of_eq_None_iff)
qed

theorem addObserver_once_per_type_witness:
  "getObserver rootedDocument 3 = None
   \<and> fst (addObserver 3 rootedDocument) =
       Inr \<lparr>instanceId = 1, observerType = 3, observed = [(editable, main)], isEnabled = True\<rparr>
   \<and> getObserver (snd (addObserver 3 rootedDocument)) 3 =
       Some \<lparr>instanceId = 1, observerType = 3, observed = [(editable, main)], isEnabled = True\<rparr>
   \<and> addObserver 3 (snd (addObserver 3 rootedDocument)) =
       (Inr \<lparr>instanceId = 1, observerType = 3, observed = [(editable, main)], isEnabled = True\<rparr>,
        snd (addObserver 3 rootedDocument))
   \<and> getObserver (fold (\<lambda>T d. snd (addObserver T d)) [1, 2] emptyDocument) 3 = None"
proof -
  have g: "getObserver rootedDocument 3 = None"
    by (simp add: js_defs doc_defs doc_examples)
  have r: "domRoots rootedDocument = [(main, editable)]" "objectsCreated rootedDocument = 1"
    by (simp_all add: js_defs doc_defs doc_examples)
  note t = addObserver_once_per_type[of rootedDocument 3 "[1, 2]" "()" "()"]
  have a: "addObserver 3 rootedDocument =
        (Inr \<lparr>instanceId = objectsCreated rootedDocument, observerType = 3,
              observed = map (\<lambda>(name, domElement). (domElement, name)) (domRoots rootedDocument),
              isEnabled = True\<rparr>,
         rootedDocument\<lparr>objectsCreated := Suc (objectsCreated rootedDocument),
           observers := observers rootedDocument @
             [(3, \<lparr>instanceId = objectsCreated rootedDocument, observerType = 3,
                   observed = map (\<lambda>(name, domElement). (domElement, name)) (domRoots rootedDocument),
                   isEnabled = True\<rparr>)]\<rparr>)"
    using t[THEN conjunct1] g by simp
  have c: "getObserver (snd (addObserver 3 rootedDocument)) 3 = Some (projr (fst (addObserver 3 rootedDocument)))"
    using t[THEN conjunct2, THEN conjunct2, THEN conjunct2, THEN conjunct1] .
  have b: "addObserver 3 (snd (addObserver 3 rootedDocument))
      = (Inr (projr (fst (addObserver 3 rootedDocument))), snd (addObserver 3 rootedDocument))"
    using addObserver_once_per_type[of "snd (addObserver 3 rootedDocument)" 3 "[]" "()" "()",
        THEN conjunct2, THEN conjunct1, rule_format, OF c] .
  have e: "getObserver (fold (\<lambda>T d. snd (addObserver T d)) [1, 2] emptyDocument) 3 = None"
    using t[THEN conjunct2, THEN conjunct2, THEN conjunct2, THEN conjunct2]
    by (simp add: emptyDocument_def)
  show ?thesis using g a b c e r by simp
qed

section \<open>Properties of the toolbar view\<close>

lemmas collection_defs = collection_add_def collection_remove_def collection_first_def
  collection_last_def getIndex_def tracker_add_def tracker_remove_def

lemmas toolbar_defs = ToolbarView_new_def onItems_def onChildren_def onFocusables_def
  onUngroupedItems_def onGroupedItems_def new_ToolbarSeparatorView_def factory_create_def
  focusTracker_add_def focusTracker_remove_def updateFocusCycleableItems_def
  ungroupedItems_add_def ungroupedItems_remove_def viewChildren_add_def viewChildren_remove_def
  areItemsOverflowing_def groupLastItem_def ungroupFirstItem_def updateGrouping_def
  enableGroupingOnResize_def resizeCallback_def DynamicGrouping_render_def
  DynamicGrouping_destroy_def DynamicGrouping_onItemsAdd_def DynamicGrouping_onItemsRemove_def
  StaticLayout_onItemsAdd_def StaticLayout_onItemsRemove_def items_add_def items_remove_def
  ToolbarView_render_def ToolbarView_destroy_def warn_def

lemmas toolbar_defs_base = onItems_def onChildren_def onFocusables_def
  onUngroupedItems_def onGroupedItems_def new_ToolbarSeparatorView_def factory_create_def
  focusTracker_add_def focusTracker_remove_def
  ungroupedItems_add_def ungroupedItems_remove_def viewChildren_add_def viewChildren_remove_def

lemmas loop_simps = groupWhileOverflowing.simps ungroupWhileFitting.simps
  groupingIterations.simps ungroupingIterations.simps

lemmas toolbar_examples = narrowLayout_def wideLayout_def bold_def italic_def link_def

subsection \<open>The example toolbars, evaluated\<close>

lemma renderedToolbar_eq:
  "renderedToolbar =
     (ToolbarView_new ''ltr'' True)
       \<lparr>isRendered := True, hasViewElement := True, resizeObserver := Some Observing\<rparr>"
  by (simp add: renderedToolbar_def js_defs collection_defs toolbar_defs loop_simps toolbar_examples)

lemma twoItemToolbar_eq:
  "twoItemToolbar =
     \<lparr>shouldGroupWhenFull = True, uiLanguageDirection = ''ltr'',
      items = [bold, italic],
      children = [ItemsView, ToolbarSeparatorView 0, GroupedItemsDropdown],
      focusables = [bold],
      focusTracker = [bold, GroupedItemsDropdown, italic],
      isRendered = True, isDestroyed = False,
      ungroupedItems = [bold], groupedItems = [italic],
      dropdownDestroyed = False, resizeObserver = Some Observing,
      cachedPadding = Some (Num 5), hasViewElement = True,
      previousWidth = None, warnings = [], viewsCreated = 1\<rparr>"
  unfolding twoItemToolbar_def renderedToolbar_eq
  by (simp add: js_defs collection_defs toolbar_defs loop_simps toolbar_examples)

lemma threeItemToolbar_eq:
  "threeItemToolbar =
     \<lparr>shouldGroupWhenFull = True, uiLanguageDirection = ''ltr'',
      items = [bold, italic, link],
      children = [ItemsView, ToolbarSeparatorView 0, GroupedItemsDropdown],
      focusables = [bold, GroupedItemsDropdown],
      focusTracker = [bold, GroupedItemsDropdown, italic, link],
      isRendered = True, isDestroyed = False,
      ungroupedItems = [bold], groupedItems = [italic, link],
      dropdownDestroyed = False, resizeObserver = Some Observing,
      cachedPadding = Some (Num 5), hasViewElement = True,
      previousWidth = None, warnings = [], viewsCreated = 1\<rparr>"
  unfolding threeItemToolbar_def twoItemToolbar_eq
  by (simp add: js_defs collection_defs toolbar_defs loop_simps toolbar_examples)

lemma widenedToolbar_eq:
  "widenedToolbar =
     \<lparr>shouldGroupWhenFull = True, uiLanguageDirection = ''ltr'',
      items = [bold, italic, link],
      children = [ItemsView, ToolbarSeparatorView 1, GroupedItemsDropdown],
      focusables = [bold, italic],
      focusTracker = [bold, italic, link, GroupedItemsDropdown],
      isRendered = True, isDestroyed = False,
      ungroupedItems = [bold, italic], groupedItems = [link],
      dropdownDestroyed = False, resizeObserver = Some Observing,
      cachedPadding = Some (Num 5), hasViewElement = True,
      previousWidth = None, warnings = [], viewsCreated = 2\<rparr>"
  unfolding widenedToolbar_def threeItemToolbar_eq
  by (simp add: js_defs collection_defs toolbar_defs loop_simps toolbar_examples)

lemmas rtl_examples = mirroredLayout_def mirroredWideLayout_def bold_def italic_def

lemma rtlToolbar_eq:
  "rtlToolbar =
     \<lparr>shouldGroupWhenFull = True, uiLanguageDirection = ''rtl'',
      items = [bold, italic],
      children = [ItemsView, ToolbarSeparatorView 0, GroupedItemsDropdown],
      focusables = [bold],
      focusTracker = [bold, GroupedItemsDropdown, italic],
      isRendered = True, isDestroyed = False,
      ungroupedItems = [bold], groupedItems = [italic],
      dropdownDestroyed = False, resizeObserver = Some Observing,
      cachedPadding = Some (Num 5), hasViewElement = True,
      previousWidth = None, warnings = [], viewsCreated = 1\<rparr>"
  unfolding rtlToolbar_def
  by (simp add: js_defs collection_defs toolbar_defs loop_simps rtl_examples)

lemma rtlWidenedToolbar_eq:
  "rtlWidenedToolbar =
     \<lparr>shouldGroupWhenFull = True, uiLanguageDirection = ''rtl'',
      items = [bold, italic],
      children = [ItemsView],
      focusables = [bold, italic],
      focusTracker = [bold, italic],
      isRendered = True, isDestroyed = False,
      ungroupedItems = [bold, italic], groupedItems = [],
      dropdownDestroyed = False, resizeObserver = Some Observing,
      cachedPadding = Some (Num 5), hasViewElement = True,
      previousWidth = None, warnings = [], viewsCreated = 1\<rparr>"
  unfolding rtlWidenedToolbar_def rtlToolbar_eq
  by (simp add: js_defs collection_defs toolbar_defs loop_simps rtl_examples)

subsection \<open>The items and their two parts\<close>

text \<open>
  Claim C3: under dynamic grouping the items are the ungrouped items followed by the grouped
  items, whatever is added and removed; an item removed at an index is removed from the part
  that holds it. The listener of the remove event tests \<^verbatim>\<open>index > ungroupedItems.length\<close>,
  as the listener of the add event does, where the first grouped item has the index
  \<^verbatim>\<open>ungroupedItems.length\<close>. In the toolbar with \<open>bold\<close> ungrouped and \<open>italic\<close>
  grouped, removing \<open>italic\<close> (index 1) asks the ungrouped items to remove it: the removal
  throws, \<open>italic\<close> is gone from the items and stays among the grouped items.
\<close>

theorem items_remove_first_grouped_item:
  "items twoItemToolbar = ungroupedItems twoItemToolbar @ groupedItems twoItemToolbar
   \<and> ungroupedItems twoItemToolbar = [bold]
   \<and> groupedItems twoItemToolbar = [italic]
   \<and> getIndex italic (items twoItemToolbar) = length (ungroupedItems twoItemToolbar)
   \<and> fst (items_remove narrowLayout italic twoItemToolbar)
       = Inl (CKEditorError ''collection-remove-404'')
   \<and> items (snd (items_remove narrowLayout italic twoItemToolbar)) = [bold]
   \<and> ungroupedItems (snd (items_remove narrowLayout italic twoItemToolbar)) = [bold]
   \<and> groupedItems (snd (items_remove narrowLayout italic twoItemToolbar)) = [italic]"
  unfolding twoItemToolbar_eq
  by (simp add: js_defs collection_defs toolbar_defs loop_simps toolbar_examples)

subsection \<open>The focusables\<close>

lemma forEach_add_result:
  "forEach (\<lambda>item. onFocusables (collection_add item None)) xs s = (Inr u, s')
   \<Longrightarrow> s' = s\<lparr>focusables := focusables s @ xs\<rparr>"
proof (induction xs arbitrary: s)
  case Nil
  then show ?case by (simp add: returns_def)
next
  case (Cons x xs)
  from Cons.prems obtain w s1 where s1: "onFocusables (collection_add x None) s = (Inr w, s1)"
    and rest: "forEach (\<lambda>item. onFocusables (collection_add item None)) xs s1 = (Inr u, s')"
    by (auto simp: andThen_def split: prod.splits sum.splits)
  from s1 have "s1 = s\<lparr>focusables := focusables s @ [x]\<rparr>"
    by (auto simp: onFocusables_def collection_add_def split: if_splits)
  with Cons.IH[OF rest] show ?case by simp
qed

lemma forEach_add_success:
  "distinct xs \<Longrightarrow> set xs \<inter> set (focusables s) = {}
   \<Longrightarrow> forEach (\<lambda>item. onFocusables (collection_add item None)) xs s
       = (Inr (), s\<lparr>focusables := focusables s @ xs\<rparr>)"
proof (induction xs arbitrary: s)
  case Nil
  then show ?case by (simp add: returns_def)
next
  case (Cons x xs)
  let ?s1 = "s\<lparr>focusables := focusables s @ [x]\<rparr>"
  from Cons.prems have s1: "onFocusables (collection_add x None) s = (Inr (), ?s1)"
    by (auto simp: onFocusables_def collection_add_def)
  from Cons.prems have "distinct xs" "set xs \<inter> set (focusables ?s1) = {}" by auto
  from Cons.IH[OF this] s1 show ?case by (simp add: andThen_def)
qed

lemma updateFocusCycleableItems_result:
  assumes "updateFocusCycleableItems s = (Inr u, s')"
  shows "s' = s\<lparr>focusables := focusCycleable s\<rparr>"
proof -
  let ?s0 = "s\<lparr>focusables := []\<rparr>"
  from assms obtain w s1 where
    s1: "forEach (\<lambda>item. onFocusables (collection_add item None)) (ungroupedItems s) ?s0 = (Inr w, s1)"
    and rest: "(if groupedItems s1 \<noteq> []
             then onFocusables (collection_add GroupedItemsDropdown None) s1
             else (Inr (), s1)) = (Inr u, s')"
    by (auto simp: updateFocusCycleableItems_def andThen_def split: prod.splits sum.splits)
  from forEach_add_result[OF s1] have e: "s1 = s\<lparr>focusables := ungroupedItems s\<rparr>" by simp
  show ?thesis
  proof (cases "groupedItems s = []")
    case True
    with rest e show ?thesis by (simp add: focusCycleable_def)
  next
    case False
    with rest e show ?thesis
      by (auto simp: focusCycleable_def onFocusables_def collection_add_def split: if_splits)
  qed
qed

lemma updateFocusCycleableItems_success:
  assumes "distinct (ungroupedItems s)" "GroupedItemsDropdown \<notin> set (ungroupedItems s)"
  shows "updateFocusCycleableItems s = (Inr (), s\<lparr>focusables := focusCycleable s\<rparr>)"
proof -
  let ?s0 = "s\<lparr>focusables := []\<rparr>"
  have "forEach (\<lambda>item. onFocusables (collection_add item None)) (ungroupedItems s) ?s0
      = (Inr (), ?s0\<lparr>focusables := focusables ?s0 @ ungroupedItems s\<rparr>)"
    using assms by (intro forEach_add_success) simp_all
  then show ?thesis using assms
    by (simp add: updateFocusCycleableItems_def andThen_def focusCycleable_def
        onFocusables_def collection_add_def)
qed

subsection \<open>One grouping step\<close>

lemma remove1_last: "distinct xs \<Longrightarrow> xs \<noteq> [] \<Longrightarrow> remove1 (last xs) xs = butlast xs"
  by (induction xs) auto

lemma groupedChildrenE:
  "groupedChildren ch \<Longrightarrow> \<exists>n. ch = [ItemsView, ToolbarSeparatorView n, GroupedItemsDropdown]"
  by (erule groupedChildren.elims) auto

lemma groupLastItem_wf:
  assumes wf: "grouping_wf s" and ne: "ungroupedItems s \<noteq> []"
  shows "fst (groupLastItem s) = Inr ()
    \<and> ungroupedItems (snd (groupLastItem s)) = butlast (ungroupedItems s)
    \<and> groupedItems (snd (groupLastItem s)) = last (ungroupedItems s) # groupedItems s
    \<and> grouping_wf (snd (groupLastItem s))
    \<and> viewsCreated s \<le> viewsCreated (snd (groupLastItem s))"
proof -
  from wf have d: "distinct (ungroupedItems s)" "GroupedItemsDropdown \<notin> set (ungroupedItems s)"
    "distinct (ungroupedItems s @ groupedItems s)"
    "GroupedItemsDropdown \<notin> set (groupedItems s)"
    by (auto simp: grouping_wf_def)
  have li: "last (ungroupedItems s) \<in> set (ungroupedItems s)" using ne by simp
  have l: "last (ungroupedItems s) \<in> set (ungroupedItems s)"
    "last (ungroupedItems s) \<notin> set (groupedItems s)"
    "distinct (butlast (ungroupedItems s))"
    "GroupedItemsDropdown \<notin> set (butlast (ungroupedItems s))"
    "last (ungroupedItems s) \<noteq> GroupedItemsDropdown"
  proof -
    show "last (ungroupedItems s) \<in> set (ungroupedItems s)" by (rule li)
    show "last (ungroupedItems s) \<notin> set (groupedItems s)" using li d(3) by fastforce
    show "distinct (butlast (ungroupedItems s))" using d(1) by (rule distinct_butlast)
    show "GroupedItemsDropdown \<notin> set (butlast (ungroupedItems s))"
      using d(2) by (auto dest: in_set_butlastD)
    show "last (ungroupedItems s) \<noteq> GroupedItemsDropdown" using li d(2) by metis
  qed
  have l2: "last (ungroupedItems s) \<notin> set (butlast (ungroupedItems s))"
    using d(1) ne by (metis append_butlast_last_id distinct_append disjoint_iff list.set_intros(1))
  have l3: "set (butlast (ungroupedItems s)) \<inter> set (groupedItems s) = {}"
    using d(3) by (auto dest: in_set_butlastD)
  show ?thesis
  proof (cases "groupedItems s = []")
    case True
    with wf have ch: "children s = [ItemsView]" by (simp add: grouping_wf_def)
    show ?thesis
      using wf ne d l l2 l3 True ch
      by (simp add: groupLastItem_def js_defs toolbar_defs_base collection_defs
          updateFocusCycleableItems_success remove1_last grouping_wf_def)
  next
    case False
    show ?thesis
      using wf ne d l l2 l3 False
      by (simp add: groupLastItem_def js_defs toolbar_defs_base collection_defs
          updateFocusCycleableItems_success remove1_last grouping_wf_def)
  qed
qed


lemma ungroupFirstItem_wf:
  assumes wf: "grouping_wf s" and ne: "groupedItems s \<noteq> []"
  shows "fst (ungroupFirstItem s) = Inr ()
    \<and> ungroupedItems (snd (ungroupFirstItem s)) = ungroupedItems s @ [hd (groupedItems s)]
    \<and> groupedItems (snd (ungroupFirstItem s)) = tl (groupedItems s)
    \<and> grouping_wf (snd (ungroupFirstItem s))
    \<and> viewsCreated s \<le> viewsCreated (snd (ungroupFirstItem s))"
proof -
  from ne obtain x g where g: "groupedItems s = x # g" by (cases "groupedItems s") auto
  from wf g have d: "distinct (ungroupedItems s)" "x \<notin> set (ungroupedItems s)"
    "GroupedItemsDropdown \<notin> set (ungroupedItems s)" "x \<noteq> GroupedItemsDropdown"
    "distinct g" "x \<notin> set g" "set (ungroupedItems s) \<inter> set g = {}"
    "GroupedItemsDropdown \<notin> set g" "shouldGroupWhenFull s" "hasViewElement s"
    by (auto simp: grouping_wf_def)
  from wf g obtain n where ch: "children s = [ItemsView, ToolbarSeparatorView n, GroupedItemsDropdown]"
    using groupedChildrenE by (auto simp: grouping_wf_def)
  show ?thesis
  proof (cases "g = []")
    case True
    show ?thesis
      using d g ch True
      by (simp add: ungroupFirstItem_def js_defs toolbar_defs_base collection_defs
          updateFocusCycleableItems_success grouping_wf_def focusCycleable_def)
  next
    case False
    show ?thesis
      using d g ch False
      by (simp add: ungroupFirstItem_def js_defs toolbar_defs_base collection_defs
          updateFocusCycleableItems_success grouping_wf_def focusCycleable_def)
  qed
qed

subsection \<open>One measurement\<close>

lemma isOverflowing_with:
  "isOverflowing env s = overflowsWith env s (ungroupedItems s) (children s)"
  by (simp add: isOverflowing_def areItemsOverflowing_def overflowsWith_def effectivePadding_def Let_def)

lemma overflowsAt_with:
  "overflowsAt env s k =
     overflowsWith env s (take k (ungroupedItems s @ groupedItems s))
       (childrenFor (drop k (ungroupedItems s @ groupedItems s)))"
  by (simp add: overflowsAt_def isOverflowing_with arranged_def overflowsWith_def effectivePadding_def)

lemma areItemsOverflowing_eq:
  "areItemsOverflowing env s =
     (Inr (isOverflowing env s),
      s\<lparr>cachedPadding := (if ungroupedItems s = [] then cachedPadding s else effectivePadding env s)\<rparr>)"
  by (simp add: areItemsOverflowing_def isOverflowing_with overflowsWith_def effectivePadding_def Let_def)

lemma effectivePadding_cached:
  "effectivePadding env (s\<lparr>cachedPadding := effectivePadding env s\<rparr>) = effectivePadding env s"
  by (simp add: effectivePadding_def)

lemma sameMeasure_refl: "sameMeasure env s s"
  by (simp add: sameMeasure_def)

lemma sameMeasure_trans: "sameMeasure env s t \<Longrightarrow> sameMeasure env t u \<Longrightarrow> sameMeasure env s u"
  by (simp add: sameMeasure_def)

lemma sameMeasure_overflowsWith:
  "sameMeasure env s s' \<Longrightarrow> overflowsWith env s' shown ch = overflowsWith env s shown ch"
  by (simp add: sameMeasure_def overflowsWith_def)

lemma areItemsOverflowing_sameMeasure:
  "sameMeasure env s (snd (areItemsOverflowing env s))"
  by (simp add: areItemsOverflowing_eq sameMeasure_def effectivePadding_def)

lemma areItemsOverflowing_wf:
  "grouping_wf (snd (areItemsOverflowing env s)) = grouping_wf s"
  by (simp add: areItemsOverflowing_eq grouping_wf_def)

lemma sameMeasure_fields:
  "uiLanguageDirection s' = uiLanguageDirection s \<Longrightarrow> cachedPadding s' = cachedPadding s
   \<Longrightarrow> sameMeasure env s s'"
  by (simp add: sameMeasure_def effectivePadding_def)

subsection \<open>What the grouping leaves alone\<close>

lemma frame_updateFocusCycleableItems: "stepFrame Q \<Longrightarrow> preserves Q updateFocusCycleableItems"
  by (rule preserves_updateFocusCycleableItems) (simp add: stepFrame_def)

lemma frame_viewChildren_add:
  assumes "stepFrame Q"
  shows "preserves Q (viewChildren_add v)"
proof -
  have "preserves Q (onChildren (collection_add v None))"
    using assms by (intro preserves_onChildren) (simp add: stepFrame_def)
  then show ?thesis unfolding viewChildren_add_def
    by (rule preserves_andThen) (rule frame_updateFocusCycleableItems[OF assms])
qed

lemma frame_viewChildren_remove:
  assumes "stepFrame Q"
  shows "preserves Q (viewChildren_remove subject)"
proof -
  have "preserves Q (onChildren (collection_remove subject))"
    using assms by (intro preserves_onChildren) (simp add: stepFrame_def)
  then show ?thesis unfolding viewChildren_remove_def
    by (rule preserves_withResult)
       (intro preserves_andThen preserves_returns frame_updateFocusCycleableItems[OF assms])
qed

lemma frame_ungroupedItems_add:
  assumes "stepFrame Q"
  shows "preserves Q (ungroupedItems_add item index)"
proof -
  have "preserves Q (onUngroupedItems (collection_add item index))"
    using assms by (intro preserves_onUngroupedItems) (simp add: stepFrame_def)
  then show ?thesis unfolding ungroupedItems_add_def
    by (rule preserves_andThen) (rule frame_updateFocusCycleableItems[OF assms])
qed

lemma frame_ungroupedItems_remove:
  assumes "stepFrame Q"
  shows "preserves Q (ungroupedItems_remove subject)"
proof -
  have "preserves Q (onUngroupedItems (collection_remove subject))"
    using assms by (intro preserves_onUngroupedItems) (simp add: stepFrame_def)
  then show ?thesis unfolding ungroupedItems_remove_def
    by (rule preserves_withResult)
       (intro preserves_andThen preserves_returns frame_updateFocusCycleableItems[OF assms])
qed

lemma frame_onGroupedItems: "stepFrame Q \<Longrightarrow> preserves Q (onGroupedItems f)"
  by (rule preserves_onGroupedItems) (simp add: stepFrame_def)

lemma frame_step: "groupingFrame Q \<Longrightarrow> stepFrame Q"
  by (simp add: groupingFrame_def)

lemma frame_areItemsOverflowing: "groupingFrame Q \<Longrightarrow> preserves Q (areItemsOverflowing env)"
  by (rule preserves_areItemsOverflowing) (simp add: groupingFrame_def)

lemma frame_groupLastItem:
  assumes "stepFrame Q"
  shows "preserves Q groupLastItem"
  unfolding preserves_def
proof
  fix s :: toolbar
  let ?P = "if groupedItems s = []
        then andThen (withResult new_ToolbarSeparatorView viewChildren_add)
               (andThen (viewChildren_add GroupedItemsDropdown)
                  (focusTracker_add GroupedItemsDropdown))
        else returns ()"
  let ?R = "withResult (\<lambda>s'. ungroupedItems_remove (collection_last (ungroupedItems s')) s')
          (\<lambda>item. onGroupedItems (collection_add item (Some 0)))"
  have n: "preserves Q new_ToolbarSeparatorView"
    using assms by (intro preserves_new_ToolbarSeparatorView) (simp add: stepFrame_def)
  have t: "preserves Q (focusTracker_add GroupedItemsDropdown)"
    using assms by (intro preserves_focusTracker_add) (simp add: stepFrame_def)
  have P: "preserves Q ?P"
    by (intro preserves_if preserves_andThen preserves_withResult preserves_returns n t
        frame_viewChildren_add assms)
  have "preserves Q (\<lambda>s'. ungroupedItems_remove (collection_last (ungroupedItems s')) s')"
    by (rule preserves_state_arg) (rule frame_ungroupedItems_remove[OF assms])
  then have R: "preserves Q ?R"
    by (rule preserves_withResult) (rule frame_onGroupedItems[OF assms])
  have "preserves Q (andThen ?P ?R)" using P R by (rule preserves_andThen)
  then show "Q (snd (groupLastItem s)) = Q s"
    by (simp add: preserves_def groupLastItem_def)
qed

lemma frame_ungroupFirstItem:
  assumes "stepFrame Q"
  shows "preserves Q ungroupFirstItem"
proof -
  have t: "preserves Q (focusTracker_remove GroupedItemsDropdown)"
    using assms by (intro preserves_focusTracker_remove) (simp add: stepFrame_def)
  have l: "preserves Q (\<lambda>s'. viewChildren_remove (collection_last (children s')) s')"
    by (rule preserves_state_arg) (rule frame_viewChildren_remove[OF assms])
  have c: "preserves Q (andThen (viewChildren_remove (Some GroupedItemsDropdown))
                   (andThen (\<lambda>s'. viewChildren_remove (collection_last (children s')) s')
                      (focusTracker_remove GroupedItemsDropdown)))"
    by (intro preserves_andThen frame_viewChildren_remove assms l t)
  have e: "preserves Q (\<lambda>s. (Inr (), s))"
    by (simp add: preserves_def)
  have R: "preserves Q (\<lambda>s. if groupedItems s = []
            then andThen (viewChildren_remove (Some GroupedItemsDropdown))
                   (andThen (\<lambda>s'. viewChildren_remove (collection_last (children s')) s')
                      (focusTracker_remove GroupedItemsDropdown)) s
            else (Inr (), s))"
    using c e by (rule preserves_state_if)
  have f: "preserves Q (\<lambda>s. onGroupedItems (collection_remove (collection_first (groupedItems s))) s)"
    by (rule preserves_state_arg[where f="\<lambda>x. onGroupedItems (collection_remove x)"])
       (rule frame_onGroupedItems[OF assms])
  have F: "preserves Q (withResult (\<lambda>s. onGroupedItems (collection_remove (collection_first (groupedItems s))) s)
          (\<lambda>item. ungroupedItems_add item None))"
    using f by (rule preserves_withResult) (rule frame_ungroupedItems_add[OF assms])
  show ?thesis unfolding ungroupFirstItem_def using F R by (rule preserves_andThen)
qed

lemma frame_groupWhileOverflowing:
  assumes "groupingFrame Q"
  shows "Q (snd (groupWhileOverflowing env w s)) = Q s"
proof (induction "length (ungroupedItems s)" arbitrary: s w rule: less_induct)
  case less
  obtain r s1 where a: "areItemsOverflowing env s = (r, s1)" by force
  then have q1: "Q s1 = Q s"
    using frame_areItemsOverflowing[OF assms] by (auto dest: preservesD)
  have u1: "ungroupedItems s1 = ungroupedItems s"
    using a by (simp add: areItemsOverflowing_eq) auto
  obtain r2 s2 where g: "groupLastItem s1 = (r2, s2)" by force
  then have q2: "Q s2 = Q s1"
    using frame_groupLastItem[OF frame_step[OF assms]] by (auto dest: preservesD)
  show ?case
  proof (cases r)
    case (Inl e)
    with a q1 show ?thesis by (subst groupWhileOverflowing.simps) simp
  next
    case (Inr b)
    show ?thesis
    proof (cases b)
      case False
      with a q1 Inr show ?thesis by (subst groupWhileOverflowing.simps) simp
    next
      case True
      show ?thesis
      proof (cases r2)
        case (Inl e)
        with a g q1 q2 Inr True show ?thesis by (subst groupWhileOverflowing.simps) simp
      next
        case r2: (Inr u)
        from g r2 have "length (ungroupedItems s2) < length (ungroupedItems s)"
          using groupLastItem_length[of s1 u s2] u1 by simp
        then have "Q (snd (groupWhileOverflowing env True s2)) = Q s2" by (rule less)
        with a g q1 q2 Inr True r2 show ?thesis
          by (subst groupWhileOverflowing.simps) simp
      qed
    qed
  qed
qed

lemma frame_ungroupWhileFitting:
  assumes "groupingFrame Q"
  shows "Q (snd (ungroupWhileFitting env s)) = Q s"
proof (induction "length (groupedItems s)" arbitrary: s rule: less_induct)
  case less
  show ?case
  proof (cases "groupedItems s = []")
    case True
    then show ?thesis by (subst ungroupWhileFitting.simps) simp
  next
    case ne: False
    obtain r s1 where a: "areItemsOverflowing env s = (r, s1)" by force
    then have q1: "Q s1 = Q s"
      using frame_areItemsOverflowing[OF assms] by (auto dest: preservesD)
    have u1: "groupedItems s1 = groupedItems s"
      using a by (simp add: areItemsOverflowing_eq) auto
    obtain r2 s2 where g: "ungroupFirstItem s1 = (r2, s2)" by force
    then have q2: "Q s2 = Q s1"
      using frame_ungroupFirstItem[OF frame_step[OF assms]] by (auto dest: preservesD)
    show ?thesis
    proof (cases r)
      case (Inl e)
      with a q1 ne show ?thesis by (subst ungroupWhileFitting.simps) simp
    next
      case (Inr b)
      show ?thesis
      proof (cases b)
        case True
        with a q1 Inr ne show ?thesis by (subst ungroupWhileFitting.simps) simp
      next
        case False
        show ?thesis
        proof (cases r2)
          case (Inl e)
          with a g q1 q2 Inr False ne show ?thesis by (subst ungroupWhileFitting.simps) simp
        next
          case r2: (Inr u)
          from g r2 have "length (groupedItems s2) < length (groupedItems s)"
            using ungroupFirstItem_length[of s1 u s2] u1 by simp
          then have "Q (snd (ungroupWhileFitting env s2)) = Q s2" by (rule less)
          with a g q1 q2 Inr False r2 ne show ?thesis
            by (subst ungroupWhileFitting.simps) simp
        qed
      qed
    qed
  qed
qed

lemma frame_updateGrouping:
  assumes "groupingFrame Q"
  shows "preserves Q (updateGrouping env)"
  unfolding preserves_def
proof
  fix s :: toolbar
  have g: "preserves Q (groupWhileOverflowing env False)"
    by (simp add: preserves_def frame_groupWhileOverflowing[OF assms])
  have u: "preserves Q (ungroupWhileFitting env)"
    by (simp add: preserves_def frame_ungroupWhileFitting[OF assms])
  have c: "preserves Q (withResult (areItemsOverflowing env)
                          (\<lambda>overflowing. if overflowing then groupLastItem else returns ()))"
    by (intro preserves_withResult preserves_if preserves_returns frame_areItemsOverflowing
        frame_groupLastItem frame_step assms)
  have k: "\<And>w. preserves Q (\<lambda>s1. if \<not> w \<and> groupedItems s1 \<noteq> []
                then andThen (ungroupWhileFitting env)
                       (withResult (areItemsOverflowing env)
                          (\<lambda>overflowing. if overflowing then groupLastItem else returns ())) s1
                else (Inr (), s1))"
    by (rule preserves_state_if) (intro preserves_andThen u c, simp add: preserves_def)
  have "preserves Q (withResult (groupWhileOverflowing env False)
             (\<lambda>wereItemsGrouped s1.
                if \<not> wereItemsGrouped \<and> groupedItems s1 \<noteq> []
                then andThen (ungroupWhileFitting env)
                       (withResult (areItemsOverflowing env)
                          (\<lambda>overflowing. if overflowing then groupLastItem else returns ())) s1
                else (Inr (), s1)))"
    using g k by (rule preserves_withResult)
  then show "Q (snd (updateGrouping env s)) = Q s"
    by (simp add: preserves_def updateGrouping_def)
qed

subsection \<open>The two loops\<close>

lemma wf_children_blind:
  assumes "grouping_wf t" "separatorBlind env"
  shows "lastChildRect env shown (children t) = lastChildRect env shown (childrenFor (groupedItems t))"
    and "toolbarRect env shown (children t) = toolbarRect env shown (childrenFor (groupedItems t))"
proof -
  show "lastChildRect env shown (children t) = lastChildRect env shown (childrenFor (groupedItems t))"
  proof (cases "groupedItems t = []")
    case True
    with assms show ?thesis by (simp add: grouping_wf_def childrenFor_def)
  next
    case False
    with assms(1) obtain n where "children t = [ItemsView, ToolbarSeparatorView n, GroupedItemsDropdown]"
      using groupedChildrenE by (auto simp: grouping_wf_def)
    with False assms(2) show ?thesis by (simp add: childrenFor_def separatorBlind_def)
  qed
  show "toolbarRect env shown (children t) = toolbarRect env shown (childrenFor (groupedItems t))"
  proof (cases "groupedItems t = []")
    case True
    with assms show ?thesis by (simp add: grouping_wf_def childrenFor_def)
  next
    case False
    with assms(1) obtain n where "children t = [ItemsView, ToolbarSeparatorView n, GroupedItemsDropdown]"
      using groupedChildrenE by (auto simp: grouping_wf_def)
    with False assms(2) show ?thesis by (simp add: childrenFor_def separatorBlind_def)
  qed
qed

lemma overflowsAt_cong:
  "sameMeasure env s t \<Longrightarrow> ungroupedItems t @ groupedItems t = ungroupedItems s @ groupedItems s
   \<Longrightarrow> overflowsAt env t k = overflowsAt env s k"
  by (simp add: overflowsAt_with sameMeasure_overflowsWith)

lemma isOverflowing_at:
  assumes "grouping_wf t" "separatorBlind env"
  shows "isOverflowing env t = overflowsAt env t (length (ungroupedItems t))"
  using wf_children_blind[OF assms]
  by (simp add: isOverflowing_with overflowsAt_with overflowsWith_def)

lemma isOverflowing_nonempty: "isOverflowing env s \<Longrightarrow> ungroupedItems s \<noteq> []"
  by (simp add: isOverflowing_with overflowsWith_def)

lemma effectivePadding_measured:
  "effectivePadding env (s\<lparr>cachedPadding :=
       (if ungroupedItems s = [] then cachedPadding s else effectivePadding env s)\<rparr>)
     = effectivePadding env s"
  by (cases "ungroupedItems s = []") (simp_all add: effectivePadding_cached)

lemma measured:
  assumes "areItemsOverflowing env s = (r, s1)"
  shows "r = Inr (isOverflowing env s)" "ungroupedItems s1 = ungroupedItems s"
    "groupedItems s1 = groupedItems s" "grouping_wf s1 = grouping_wf s" "sameMeasure env s s1"
    "viewsCreated s1 = viewsCreated s" "isOverflowing env s1 = isOverflowing env s"
proof -
  from assms have r: "r = Inr (isOverflowing env s)"
    and s1: "s1 = s\<lparr>cachedPadding :=
       (if ungroupedItems s = [] then cachedPadding s else effectivePadding env s)\<rparr>"
    by (simp_all add: areItemsOverflowing_eq)
  show "r = Inr (isOverflowing env s)" by (rule r)
  show "ungroupedItems s1 = ungroupedItems s" "groupedItems s1 = groupedItems s"
    "viewsCreated s1 = viewsCreated s"
    by (simp_all add: s1)
  show "grouping_wf s1 = grouping_wf s" by (simp add: s1 grouping_wf_def)
  have e: "effectivePadding env s1 = effectivePadding env s"
    unfolding s1 by (rule effectivePadding_measured)
  then show m: "sameMeasure env s s1" by (simp add: sameMeasure_def s1)
  have "children s1 = children s" by (simp add: s1)
  with m show "isOverflowing env s1 = isOverflowing env s"
    by (simp add: isOverflowing_with sameMeasure_overflowsWith \<open>ungroupedItems s1 = ungroupedItems s\<close>)
qed

lemma groupLastItem_sameMeasure: "sameMeasure env s (snd (groupLastItem s))"
proof (rule sameMeasure_fields)
  have "stepFrame uiLanguageDirection" by (simp add: stepFrame_def)
  then show "uiLanguageDirection (snd (groupLastItem s)) = uiLanguageDirection s"
    using frame_groupLastItem by (auto simp: preserves_def)
  have "stepFrame cachedPadding" by (simp add: stepFrame_def)
  then show "cachedPadding (snd (groupLastItem s)) = cachedPadding s"
    using frame_groupLastItem by (auto simp: preserves_def)
qed

lemma ungroupFirstItem_sameMeasure: "sameMeasure env s (snd (ungroupFirstItem s))"
proof (rule sameMeasure_fields)
  have "stepFrame uiLanguageDirection" by (simp add: stepFrame_def)
  then show "uiLanguageDirection (snd (ungroupFirstItem s)) = uiLanguageDirection s"
    using frame_ungroupFirstItem by (auto simp: preserves_def)
  have "stepFrame cachedPadding" by (simp add: stepFrame_def)
  then show "cachedPadding (snd (ungroupFirstItem s)) = cachedPadding s"
    using frame_ungroupFirstItem by (auto simp: preserves_def)
qed


lemma groupWhileOverflowing_correct:
  assumes "grouping_wf s"
  shows "\<exists>b s'. groupWhileOverflowing env w s = (Inr b, s') \<and> grouping_wf s'
      \<and> ungroupedItems s' @ groupedItems s' = ungroupedItems s @ groupedItems s
      \<and> length (ungroupedItems s') \<le> length (ungroupedItems s)
      \<and> (b \<longleftrightarrow> w \<or> length (ungroupedItems s') < length (ungroupedItems s))
      \<and> \<not> isOverflowing env s' \<and> sameMeasure env s s' \<and> viewsCreated s \<le> viewsCreated s'
      \<and> (separatorBlind env \<longrightarrow>
           (\<forall>k. length (ungroupedItems s') < k \<and> k \<le> length (ungroupedItems s)
                \<longrightarrow> overflowsAt env s k))"
  using assms
proof (induction "length (ungroupedItems s)" arbitrary: s w rule: less_induct)
  case less
  obtain r s1 where a: "areItemsOverflowing env s = (r, s1)" by force
  note m = measured[OF a]
  show ?case
  proof (cases "isOverflowing env s")
    case False
    have "groupWhileOverflowing env w s = (Inr w, s1)"
      using a m(1) False by (subst groupWhileOverflowing.simps) simp
    moreover have "grouping_wf s1" using m(4) less.prems by simp
    moreover have "\<not> isOverflowing env s1" using m(7) False by simp
    ultimately show ?thesis using m(2,3,5,6) by auto
  next
    case True
    then have ne: "ungroupedItems s1 \<noteq> []" using m(2) by (simp add: isOverflowing_nonempty)
    have wf1: "grouping_wf s1" using m(4) less.prems by simp
    define s2 where "s2 = snd (groupLastItem s1)"
    note g = groupLastItem_wf[OF wf1 ne, folded s2_def]
    have g': "groupLastItem s1 = (Inr (), s2)" using g by (simp add: s2_def prod_eq_iff)
    have u2: "ungroupedItems s2 = butlast (ungroupedItems s)" using g m(2) by simp
    have g2: "groupedItems s2 = last (ungroupedItems s) # groupedItems s" using g m(2,3) by simp
    have len: "length (ungroupedItems s2) < length (ungroupedItems s)"
      using u2 ne m(2) by simp
    have cat: "ungroupedItems s2 @ groupedItems s2 = ungroupedItems s @ groupedItems s"
      using u2 g2 ne m(2) by simp
    have sm: "sameMeasure env s s2"
      using m(5) groupLastItem_sameMeasure[of env s1] by (auto simp: s2_def intro: sameMeasure_trans)
    have wf2: "grouping_wf s2" using g by simp
    from less.hyps[OF len wf2, of True] obtain b s' where
      run2: "groupWhileOverflowing env True s2 = (Inr b, s')" and wf': "grouping_wf s'"
      and cat': "ungroupedItems s' @ groupedItems s' = ungroupedItems s2 @ groupedItems s2"
      and le': "length (ungroupedItems s') \<le> length (ungroupedItems s2)"
      and b: "b"
      and no: "\<not> isOverflowing env s'" and sm': "sameMeasure env s2 s'"
      and vc: "viewsCreated s2 \<le> viewsCreated s'"
      and bl: "separatorBlind env \<longrightarrow>
           (\<forall>k. length (ungroupedItems s') < k \<and> k \<le> length (ungroupedItems s2)
                \<longrightarrow> overflowsAt env s2 k)"
      by auto
    have run: "groupWhileOverflowing env w s = (Inr b, s')"
      using a m(1) True g' run2 by (subst groupWhileOverflowing.simps) simp
    have blind: "separatorBlind env \<longrightarrow>
           (\<forall>k. length (ungroupedItems s') < k \<and> k \<le> length (ungroupedItems s)
                \<longrightarrow> overflowsAt env s k)"
    proof (intro impI allI)
      fix k
      assume sb: "separatorBlind env"
        and k: "length (ungroupedItems s') < k \<and> k \<le> length (ungroupedItems s)"
      show "overflowsAt env s k"
      proof (cases "k \<le> length (ungroupedItems s2)")
        case True
        with bl sb k have "overflowsAt env s2 k" by simp
        then show ?thesis using overflowsAt_cong[OF sm cat] by simp
      next
        case False
        with k u2 have "k = length (ungroupedItems s)" by (simp, arith)
        then show ?thesis
          using isOverflowing_at[OF less.prems sb] \<open>isOverflowing env s\<close> by simp
      qed
    qed
    have "viewsCreated s \<le> viewsCreated s'" using vc g m(6) by simp
    moreover have "sameMeasure env s s'" using sm sm' by (rule sameMeasure_trans)
    moreover have "length (ungroupedItems s') < length (ungroupedItems s)" using le' len by simp
    ultimately show ?thesis using run wf' cat' cat b no blind by auto
  qed
qed

lemma ungroupWhileFitting_correct:
  assumes "grouping_wf s"
  shows "\<exists>s'. ungroupWhileFitting env s = (Inr (), s') \<and> grouping_wf s'
      \<and> ungroupedItems s' @ groupedItems s' = ungroupedItems s @ groupedItems s
      \<and> length (ungroupedItems s) \<le> length (ungroupedItems s')
      \<and> (groupedItems s' = [] \<or> isOverflowing env s')
      \<and> sameMeasure env s s' \<and> viewsCreated s \<le> viewsCreated s'
      \<and> (separatorBlind env \<longrightarrow>
           (\<forall>k. length (ungroupedItems s) \<le> k \<and> k < length (ungroupedItems s')
                \<longrightarrow> \<not> overflowsAt env s k))"
  using assms
proof (induction "length (groupedItems s)" arbitrary: s rule: less_induct)
  case less
  show ?case
  proof (cases "groupedItems s = []")
    case True
    then have "ungroupWhileFitting env s = (Inr (), s)"
      by (subst ungroupWhileFitting.simps) simp
    then show ?thesis using True less.prems by (auto simp: sameMeasure_refl)
  next
    case ne: False
    obtain r s1 where a: "areItemsOverflowing env s = (r, s1)" by force
    note m = measured[OF a]
    have wf1: "grouping_wf s1" using m(4) less.prems by simp
    show ?thesis
    proof (cases "isOverflowing env s")
      case True
      have "ungroupWhileFitting env s = (Inr (), s1)"
        using a m(1) True ne by (subst ungroupWhileFitting.simps) simp
      moreover have "isOverflowing env s1" using m(7) True by simp
      ultimately show ?thesis using wf1 m(2,3,5,6) by auto
    next
      case False
      have ne1: "groupedItems s1 \<noteq> []" using ne m(3) by simp
      define s2 where "s2 = snd (ungroupFirstItem s1)"
      note g = ungroupFirstItem_wf[OF wf1 ne1, folded s2_def]
      have g': "ungroupFirstItem s1 = (Inr (), s2)" using g by (simp add: s2_def prod_eq_iff)
      have u2: "ungroupedItems s2 = ungroupedItems s @ [hd (groupedItems s)]" using g m(2,3) by simp
      have g2: "groupedItems s2 = tl (groupedItems s)" using g m(3) by simp
      have len: "length (groupedItems s2) < length (groupedItems s)" using g2 ne by simp
      have cat: "ungroupedItems s2 @ groupedItems s2 = ungroupedItems s @ groupedItems s"
        using u2 g2 ne by simp
      have sm: "sameMeasure env s s2"
        using m(5) ungroupFirstItem_sameMeasure[of env s1]
        by (auto simp: s2_def intro: sameMeasure_trans)
      have wf2: "grouping_wf s2" using g by simp
      from less.hyps[OF len wf2] obtain s' where
        run2: "ungroupWhileFitting env s2 = (Inr (), s')" and wf': "grouping_wf s'"
        and cat': "ungroupedItems s' @ groupedItems s' = ungroupedItems s2 @ groupedItems s2"
        and le': "length (ungroupedItems s2) \<le> length (ungroupedItems s')"
        and ex: "groupedItems s' = [] \<or> isOverflowing env s'"
        and sm': "sameMeasure env s2 s'"
        and vc: "viewsCreated s2 \<le> viewsCreated s'"
        and bl: "separatorBlind env \<longrightarrow>
           (\<forall>k. length (ungroupedItems s2) \<le> k \<and> k < length (ungroupedItems s')
                \<longrightarrow> \<not> overflowsAt env s2 k)"
        by auto
      have run: "ungroupWhileFitting env s = (Inr (), s')"
        using a m(1) False ne g' run2 by (subst ungroupWhileFitting.simps) simp
      have blind: "separatorBlind env \<longrightarrow>
           (\<forall>k. length (ungroupedItems s) \<le> k \<and> k < length (ungroupedItems s')
                \<longrightarrow> \<not> overflowsAt env s k)"
      proof (intro impI allI)
        fix k
        assume sb: "separatorBlind env"
          and k: "length (ungroupedItems s) \<le> k \<and> k < length (ungroupedItems s')"
        show "\<not> overflowsAt env s k"
        proof (cases "length (ungroupedItems s2) \<le> k")
          case True
          with bl sb k have "\<not> overflowsAt env s2 k" by simp
          then show ?thesis using overflowsAt_cong[OF sm cat] by simp
        next
          case False
          with k u2 have "k = length (ungroupedItems s)" by simp
          then show ?thesis
            using isOverflowing_at[OF less.prems sb] \<open>\<not> isOverflowing env s\<close> by simp
        qed
      qed
      have "viewsCreated s \<le> viewsCreated s'" using vc g m(6) by simp
      moreover have "sameMeasure env s s'" using sm sm' by (rule sameMeasure_trans)
      moreover have "length (ungroupedItems s) \<le> length (ungroupedItems s')" using le' u2 by simp
      ultimately show ?thesis using run wf' cat' cat ex blind by auto
    qed
  qed
qed

subsection \<open>One pass of \<^verbatim>\<open>_updateGrouping\<close>\<close>

lemma butlast_last_append: "xs \<noteq> [] \<Longrightarrow> butlast xs @ last xs # ys = xs @ ys"
  by (induction xs) auto

lemma isOverflowing_at_start:
  assumes "grouping_wf t" "separatorBlind env" "sameMeasure env s t"
    "ungroupedItems t @ groupedItems t = ungroupedItems s @ groupedItems s"
  shows "isOverflowing env t = overflowsAt env s (length (ungroupedItems t))"
  using isOverflowing_at[OF assms(1,2)] overflowsAt_cong[OF assms(3,4)] by simp

lemma updateGrouping_correct:
  assumes wf: "grouping_wf s" and att: "inDocumentBody env"
  shows "\<exists>s'. updateGrouping env s = (Inr (), s') \<and> grouping_wf s'
      \<and> ungroupedItems s' @ groupedItems s' = ungroupedItems s @ groupedItems s
      \<and> sameMeasure env s s' \<and> viewsCreated s \<le> viewsCreated s'
      \<and> (separatorBlind env \<longrightarrow>
            \<not> isOverflowing env s'
            \<and> (isOverflowing env s \<longrightarrow>
                  length (ungroupedItems s') < length (ungroupedItems s)
                  \<and> (\<forall>k. length (ungroupedItems s') < k \<and> k \<le> length (ungroupedItems s)
                        \<longrightarrow> overflowsAt env s k))
            \<and> (\<not> isOverflowing env s \<longrightarrow>
                  length (ungroupedItems s) \<le> length (ungroupedItems s')
                  \<and> (\<forall>k. length (ungroupedItems s) \<le> k \<and> k \<le> length (ungroupedItems s')
                        \<longrightarrow> \<not> overflowsAt env s k)
                  \<and> (groupedItems s' \<noteq> [] \<longrightarrow>
                        overflowsAt env s (Suc (length (ungroupedItems s'))))))"
proof -
  from wf have hv: "hasViewElement s" by (simp add: grouping_wf_def)
  from groupWhileOverflowing_correct[OF wf, of env False] obtain b s1 where
    run1: "groupWhileOverflowing env False s = (Inr b, s1)" and wf1: "grouping_wf s1"
    and cat1: "ungroupedItems s1 @ groupedItems s1 = ungroupedItems s @ groupedItems s"
    and le1: "length (ungroupedItems s1) \<le> length (ungroupedItems s)"
    and b: "b \<longleftrightarrow> length (ungroupedItems s1) < length (ungroupedItems s)"
    and no1: "\<not> isOverflowing env s1" and sm1: "sameMeasure env s s1"
    and vc1: "viewsCreated s \<le> viewsCreated s1"
    and bl1: "separatorBlind env \<longrightarrow>
           (\<forall>k. length (ungroupedItems s1) < k \<and> k \<le> length (ungroupedItems s)
                \<longrightarrow> overflowsAt env s k)"
    by auto
  have unfold: "updateGrouping env s =
      (if \<not> b \<and> groupedItems s1 \<noteq> []
       then andThen (ungroupWhileFitting env)
              (withResult (areItemsOverflowing env)
                 (\<lambda>overflowing. if overflowing then groupLastItem else returns ())) s1
       else (Inr (), s1))"
    using hv att run1 by (simp add: updateGrouping_def withResult_def)
  have at1: "separatorBlind env \<Longrightarrow> isOverflowing env s1 = overflowsAt env s (length (ungroupedItems s1))"
    by (rule isOverflowing_at_start[OF wf1 _ sm1 cat1])
  have at0: "separatorBlind env \<Longrightarrow> isOverflowing env s = overflowsAt env s (length (ungroupedItems s))"
    by (rule isOverflowing_at[OF wf])
  show ?thesis
  proof (cases b)
    case True
    with unfold have run: "updateGrouping env s = (Inr (), s1)" by simp
    from True b have lt: "length (ungroupedItems s1) < length (ungroupedItems s)" by simp
    have "separatorBlind env \<Longrightarrow> isOverflowing env s"
      using bl1 lt at0 by simp
    then show ?thesis using run wf1 cat1 sm1 vc1 no1 lt bl1 by auto
  next
    case False
    with b le1 have eq: "length (ungroupedItems s1) = length (ungroupedItems s)" by simp
    have no0: "separatorBlind env \<Longrightarrow> \<not> isOverflowing env s"
      using at0 at1 no1 eq by simp
    show ?thesis
    proof (cases "groupedItems s1 = []")
      case True
      with unfold have run: "updateGrouping env s = (Inr (), s1)" by simp
      have "separatorBlind env \<Longrightarrow>
          (\<forall>k. length (ungroupedItems s) \<le> k \<and> k \<le> length (ungroupedItems s1)
                        \<longrightarrow> \<not> overflowsAt env s k)"
        using eq at1 no1 by auto
      then show ?thesis using run wf1 cat1 sm1 vc1 no1 no0 eq True by auto
    next
      case ne: False
      from ungroupWhileFitting_correct[OF wf1, of env] obtain s2 where
        run2: "ungroupWhileFitting env s1 = (Inr (), s2)" and wf2: "grouping_wf s2"
        and cat2: "ungroupedItems s2 @ groupedItems s2 = ungroupedItems s1 @ groupedItems s1"
        and le2: "length (ungroupedItems s1) \<le> length (ungroupedItems s2)"
        and ex2: "groupedItems s2 = [] \<or> isOverflowing env s2"
        and sm2: "sameMeasure env s1 s2" and vc2: "viewsCreated s1 \<le> viewsCreated s2"
        and bl2: "separatorBlind env \<longrightarrow>
           (\<forall>k. length (ungroupedItems s1) \<le> k \<and> k < length (ungroupedItems s2)
                \<longrightarrow> \<not> overflowsAt env s1 k)"
        by auto
      have sm02: "sameMeasure env s s2" using sm1 sm2 by (rule sameMeasure_trans)
      have cat02: "ungroupedItems s2 @ groupedItems s2 = ungroupedItems s @ groupedItems s"
        using cat2 cat1 by simp
      have at2: "separatorBlind env \<Longrightarrow> isOverflowing env s2 = overflowsAt env s (length (ungroupedItems s2))"
        by (rule isOverflowing_at_start[OF wf2 _ sm02 cat02])
      have bl2': "separatorBlind env \<Longrightarrow> length (ungroupedItems s) \<le> k \<Longrightarrow> k < length (ungroupedItems s2)
           \<Longrightarrow> \<not> overflowsAt env s k" for k
        using bl2 eq overflowsAt_cong[OF sm1 cat1] by simp
      obtain r s3 where a: "areItemsOverflowing env s2 = (r, s3)" by force
      note m = measured[OF a]
      have wf3: "grouping_wf s3" using m(4) wf2 by simp
      have sm03: "sameMeasure env s s3" using sm02 m(5) by (rule sameMeasure_trans)
      have cat03: "ungroupedItems s3 @ groupedItems s3 = ungroupedItems s @ groupedItems s"
        using cat02 m(2,3) by simp
      have vc3: "viewsCreated s \<le> viewsCreated s3" using vc1 vc2 m(6) by simp
      show ?thesis
      proof (cases "isOverflowing env s2")
        case fits: False
        have run: "updateGrouping env s = (Inr (), s3)"
          using unfold \<open>\<not> b\<close> ne run2 a m(1) fits
          by (simp add: andThen_def withResult_def returns_def)
        from fits ex2 have g3: "groupedItems s3 = []" using m(3) by simp
        have no3: "\<not> isOverflowing env s3" using m(7) fits by simp
        have len3: "length (ungroupedItems s) \<le> length (ungroupedItems s3)"
          using le2 eq m(2) by simp
        have "separatorBlind env \<Longrightarrow> length (ungroupedItems s) \<le> k \<Longrightarrow> k \<le> length (ungroupedItems s3)
           \<Longrightarrow> \<not> overflowsAt env s k" for k
          using bl2'[of k] at2 fits m(2) by (cases "k < length (ungroupedItems s2)") auto
        then show ?thesis using run wf3 cat03 sm03 vc3 no3 no0 len3 g3 by auto
      next
        case over: True
        have ne3: "ungroupedItems s3 \<noteq> []" using over m(2) by (simp add: isOverflowing_nonempty)
        define s4 where "s4 = snd (groupLastItem s3)"
        note g = groupLastItem_wf[OF wf3 ne3, folded s4_def]
        have g': "groupLastItem s3 = (Inr (), s4)" using g by (simp add: s4_def prod_eq_iff)
        have run: "updateGrouping env s = (Inr (), s4)"
          using unfold \<open>\<not> b\<close> ne run2 a m(1) over g'
          by (simp add: andThen_def withResult_def)
        have wf4: "grouping_wf s4" using g by simp
        have u4: "ungroupedItems s4 = butlast (ungroupedItems s2)" using g m(2) by simp
        have g4: "groupedItems s4 \<noteq> []" using g by simp
        have cat4: "ungroupedItems s4 @ groupedItems s4 = ungroupedItems s @ groupedItems s"
          using g cat03 ne3 by (simp add: butlast_last_append)
        have sm4: "sameMeasure env s s4"
          using sm03 groupLastItem_sameMeasure[of env s3] by (auto simp: s4_def intro: sameMeasure_trans)
        have vc4: "viewsCreated s \<le> viewsCreated s4" using vc3 g by simp
        have at4: "separatorBlind env \<Longrightarrow> isOverflowing env s4 = overflowsAt env s (length (ungroupedItems s4))"
          by (rule isOverflowing_at_start[OF wf4 _ sm4 cat4])
        have len2: "separatorBlind env \<Longrightarrow> length (ungroupedItems s) < length (ungroupedItems s2)"
        proof (rule ccontr)
          assume sb: "separatorBlind env" and "\<not> length (ungroupedItems s) < length (ungroupedItems s2)"
          with le2 eq have "length (ungroupedItems s2) = length (ungroupedItems s)" by simp
          with at2[OF sb] at0[OF sb] no0[OF sb] over show False by simp
        qed
        have l4: "Suc (length (ungroupedItems s4)) = length (ungroupedItems s2)"
          using u4 ne3 m(2) by simp
        have c1: "separatorBlind env \<Longrightarrow> \<not> isOverflowing env s4"
          using at4 bl2'[of "length (ungroupedItems s4)"] len2 l4 by simp
        have c2: "separatorBlind env \<Longrightarrow> length (ungroupedItems s) \<le> length (ungroupedItems s4)"
          using len2 l4 by simp
        have c3: "separatorBlind env \<Longrightarrow> length (ungroupedItems s) \<le> k \<Longrightarrow> k \<le> length (ungroupedItems s4)
           \<Longrightarrow> \<not> overflowsAt env s k" for k
          using bl2'[of k] l4 by simp
        have c4: "separatorBlind env \<Longrightarrow> overflowsAt env s (Suc (length (ungroupedItems s4)))"
          using at2 over l4 by simp
        show ?thesis using run wf4 cat4 sm4 vc4 no0 c1 c2 c3 c4 by auto
      qed
    qed
  qed
qed

text \<open>
  Claim C2: one pass of \<^verbatim>\<open>_updateGrouping\<close> over a rendered toolbar that is in the
  document body, in the shape \<open>grouping_wf\<close>, with a layout that measures the same
  whichever separator object stands before the dropdown (\<open>separatorBlind\<close>: the
  separator is constructed anew each time the dropdown appears). The pass returns, and the ungrouped items followed by the grouped items
  are the same list before and after, so that items only move between the end of the one
  and the front of the other. When the toolbar overflows at first, items are grouped from
  the end: every arrangement from the first one down to the last but one overflowed, and
  nothing is ungrouped. When it does not overflow at first, items are ungrouped from the
  front of the group: no arrangement from the first one up to the last one overflows, and
  when a grouped item is left, ungrouping one more would overflow (that one item was put
  back). The pass ends in a toolbar that does not overflow, and a second pass leaves the
  two parts as they are.
\<close>

theorem updateGrouping_pass:
  assumes "grouping_wf s" and "inDocumentBody env" and "separatorBlind env"
  shows "\<exists>s'. updateGrouping env s = (Inr (), s') \<and> grouping_wf s'
      \<and> ungroupedItems s' @ groupedItems s' = ungroupedItems s @ groupedItems s
      \<and> fst (areItemsOverflowing env s') = Inr False
      \<and> (isOverflowing env s \<longrightarrow>
            length (ungroupedItems s') < length (ungroupedItems s)
            \<and> (\<forall>k. length (ungroupedItems s') < k \<and> k \<le> length (ungroupedItems s)
                  \<longrightarrow> overflowsAt env s k))
      \<and> (\<not> isOverflowing env s \<longrightarrow>
            length (ungroupedItems s) \<le> length (ungroupedItems s')
            \<and> (\<forall>k. length (ungroupedItems s) \<le> k \<and> k \<le> length (ungroupedItems s')
                  \<longrightarrow> \<not> overflowsAt env s k)
            \<and> (groupedItems s' \<noteq> [] \<longrightarrow> overflowsAt env s (Suc (length (ungroupedItems s')))))
      \<and> fst (updateGrouping env s') = Inr ()
      \<and> ungroupedItems (snd (updateGrouping env s')) = ungroupedItems s'
      \<and> groupedItems (snd (updateGrouping env s')) = groupedItems s'"
proof -
  from updateGrouping_correct[OF assms(1,2)] assms(3) obtain s' where
    run: "updateGrouping env s = (Inr (), s')" and wf': "grouping_wf s'"
    and cat: "ungroupedItems s' @ groupedItems s' = ungroupedItems s @ groupedItems s"
    and sm: "sameMeasure env s s'"
    and no: "\<not> isOverflowing env s'"
    and over: "isOverflowing env s \<longrightarrow>
            length (ungroupedItems s') < length (ungroupedItems s)
            \<and> (\<forall>k. length (ungroupedItems s') < k \<and> k \<le> length (ungroupedItems s)
                  \<longrightarrow> overflowsAt env s k)"
    and fits: "\<not> isOverflowing env s \<longrightarrow>
            length (ungroupedItems s) \<le> length (ungroupedItems s')
            \<and> (\<forall>k. length (ungroupedItems s) \<le> k \<and> k \<le> length (ungroupedItems s')
                  \<longrightarrow> \<not> overflowsAt env s k)
            \<and> (groupedItems s' \<noteq> [] \<longrightarrow> overflowsAt env s (Suc (length (ungroupedItems s'))))"
    by blast
  from updateGrouping_correct[OF wf' assms(2)] assms(3) no obtain s'' where
    run2: "updateGrouping env s' = (Inr (), s'')"
    and cat2: "ungroupedItems s'' @ groupedItems s'' = ungroupedItems s' @ groupedItems s'"
    and le2: "length (ungroupedItems s') \<le> length (ungroupedItems s'')"
    and fits2: "\<forall>k. length (ungroupedItems s') \<le> k \<and> k \<le> length (ungroupedItems s'')
                  \<longrightarrow> \<not> overflowsAt env s' k"
    by blast
  have next_over: "groupedItems s' \<noteq> [] \<Longrightarrow> overflowsAt env s (Suc (length (ungroupedItems s')))"
  proof (cases "isOverflowing env s")
    case True
    assume "groupedItems s' \<noteq> []"
    from True over show ?thesis by simp
  next
    case False
    assume "groupedItems s' \<noteq> []"
    with False fits show ?thesis by simp
  qed
  have same_len: "length (ungroupedItems s'') = length (ungroupedItems s')"
  proof (rule ccontr)
    assume "length (ungroupedItems s'') \<noteq> length (ungroupedItems s')"
    with le2 have lt: "Suc (length (ungroupedItems s')) \<le> length (ungroupedItems s'')" by simp
    with fits2 have "\<not> overflowsAt env s' (Suc (length (ungroupedItems s')))" by simp
    then have n: "\<not> overflowsAt env s (Suc (length (ungroupedItems s')))"
      using overflowsAt_cong[OF sm cat] by simp
    have "length (ungroupedItems s'') \<le> length (ungroupedItems s') + length (groupedItems s')"
      using arg_cong[OF cat2, of length] by simp
    with lt have "groupedItems s' \<noteq> []" by auto
    with next_over n show False by simp
  qed
  have "ungroupedItems s'' = take (length (ungroupedItems s'')) (ungroupedItems s'' @ groupedItems s'')"
    by simp
  also have "\<dots> = ungroupedItems s'" unfolding cat2 same_len by simp
  finally have u: "ungroupedItems s'' = ungroupedItems s'" .
  with cat2 have g: "groupedItems s'' = groupedItems s'" by simp
  have "fst (areItemsOverflowing env s') = Inr False"
    using no by (simp add: areItemsOverflowing_eq)
  with run wf' cat over fits run2 u g show ?thesis by simp
qed


theorem updateGrouping_pass_witness:
  "grouping_wf threeItemToolbar \<and> inDocumentBody wideLayout \<and> separatorBlind wideLayout
   \<and> \<not> isOverflowing wideLayout threeItemToolbar
   \<and> fst (updateGrouping wideLayout threeItemToolbar) = Inr ()
   \<and> ungroupedItems widenedToolbar = [bold, italic] \<and> groupedItems widenedToolbar = [link]
   \<and> fst (areItemsOverflowing wideLayout widenedToolbar) = Inr False
   \<and> overflowsAt wideLayout threeItemToolbar 3
   \<and> grouping_wf widenedToolbar \<and> inDocumentBody narrowLayout \<and> separatorBlind narrowLayout
   \<and> isOverflowing narrowLayout widenedToolbar
   \<and> fst (updateGrouping narrowLayout widenedToolbar) = Inr ()
   \<and> ungroupedItems (snd (updateGrouping narrowLayout widenedToolbar)) = [bold]
   \<and> groupedItems (snd (updateGrouping narrowLayout widenedToolbar)) = [italic, link]
   \<and> fst (areItemsOverflowing narrowLayout (snd (updateGrouping narrowLayout widenedToolbar)))
       = Inr False
   \<and> grouping_wf rtlToolbar \<and> inDocumentBody mirroredWideLayout \<and> separatorBlind mirroredWideLayout
   \<and> \<not> isOverflowing mirroredWideLayout rtlToolbar
   \<and> fst (updateGrouping mirroredWideLayout rtlToolbar) = Inr ()
   \<and> ungroupedItems rtlWidenedToolbar = [bold, italic] \<and> groupedItems rtlWidenedToolbar = []
   \<and> fst (areItemsOverflowing mirroredWideLayout rtlWidenedToolbar) = Inr False
   \<and> grouping_wf rtlWidenedToolbar \<and> inDocumentBody mirroredLayout \<and> separatorBlind mirroredLayout
   \<and> isOverflowing mirroredLayout rtlWidenedToolbar
   \<and> fst (updateGrouping mirroredLayout rtlWidenedToolbar) = Inr ()
   \<and> ungroupedItems (snd (updateGrouping mirroredLayout rtlWidenedToolbar)) = [bold]
   \<and> groupedItems (snd (updateGrouping mirroredLayout rtlWidenedToolbar)) = [italic]
   \<and> fst (areItemsOverflowing mirroredLayout (snd (updateGrouping mirroredLayout rtlWidenedToolbar)))
       = Inr False"
proof -
  have wf1: "grouping_wf threeItemToolbar"
    by (simp add: threeItemToolbar_eq grouping_wf_def toolbar_examples)
  have att: "inDocumentBody wideLayout" "inDocumentBody narrowLayout"
    by (simp_all add: toolbar_examples)
  have blind: "separatorBlind wideLayout" "separatorBlind narrowLayout"
    by (simp_all add: separatorBlind_def toolbar_examples)
  have fits1: "\<not> isOverflowing wideLayout threeItemToolbar"
    by (simp add: isOverflowing_with overflowsWith_def effectivePadding_def threeItemToolbar_eq
        toolbar_examples)
  from updateGrouping_pass[OF wf1 att(1) blind(1)] fits1 obtain s' where
    run1: "updateGrouping wideLayout threeItemToolbar = (Inr (), s')"
    and wf2': "grouping_wf s'"
    and no1: "fst (areItemsOverflowing wideLayout s') = Inr False"
    and g1: "groupedItems s' \<noteq> [] \<longrightarrow> overflowsAt wideLayout threeItemToolbar (Suc (length (ungroupedItems s')))"
    by blast
  from run1 have s': "s' = widenedToolbar" by (simp add: widenedToolbar_def)
  have w: "ungroupedItems widenedToolbar = [bold, italic]" "groupedItems widenedToolbar = [link]"
    by (simp_all add: widenedToolbar_eq)
  have over2: "isOverflowing narrowLayout widenedToolbar"
    by (simp add: isOverflowing_with overflowsWith_def effectivePadding_def widenedToolbar_eq
        toolbar_examples)
  from updateGrouping_pass[OF wf2'[unfolded s'] att(2) blind(2)] over2 obtain s'' where
    run2: "updateGrouping narrowLayout widenedToolbar = (Inr (), s'')"
    and no2: "fst (areItemsOverflowing narrowLayout s'') = Inr False"
    by blast
  have e: "ungroupedItems (snd (updateGrouping narrowLayout widenedToolbar)) = [bold]"
    "groupedItems (snd (updateGrouping narrowLayout widenedToolbar)) = [italic, link]"
    unfolding widenedToolbar_eq
    by (simp_all add: js_defs collection_defs toolbar_defs loop_simps toolbar_examples)
  have wf3: "grouping_wf rtlToolbar"
    by (simp add: rtlToolbar_eq grouping_wf_def rtl_examples)
  have att3: "inDocumentBody mirroredWideLayout" "inDocumentBody mirroredLayout"
    by (simp_all add: rtl_examples)
  have blind3: "separatorBlind mirroredWideLayout" "separatorBlind mirroredLayout"
    by (simp_all add: separatorBlind_def rtl_examples)
  have fits3: "\<not> isOverflowing mirroredWideLayout rtlToolbar"
    by (simp add: isOverflowing_with overflowsWith_def effectivePadding_def rtlToolbar_eq
        rtl_examples)
  from updateGrouping_pass[OF wf3 att3(1) blind3(1)] fits3 obtain s3 where
    run3: "updateGrouping mirroredWideLayout rtlToolbar = (Inr (), s3)"
    and wf4': "grouping_wf s3"
    and no3: "fst (areItemsOverflowing mirroredWideLayout s3) = Inr False"
    by blast
  from run3 have s3: "s3 = rtlWidenedToolbar" by (simp add: rtlWidenedToolbar_def)
  have w3: "ungroupedItems rtlWidenedToolbar = [bold, italic]" "groupedItems rtlWidenedToolbar = []"
    by (simp_all add: rtlWidenedToolbar_eq)
  have over4: "isOverflowing mirroredLayout rtlWidenedToolbar"
    by (simp add: isOverflowing_with overflowsWith_def effectivePadding_def rtlWidenedToolbar_eq
        rtl_examples)
  from updateGrouping_pass[OF wf4'[unfolded s3] att3(2) blind3(2)] over4 obtain s4 where
    run4: "updateGrouping mirroredLayout rtlWidenedToolbar = (Inr (), s4)"
    and no4: "fst (areItemsOverflowing mirroredLayout s4) = Inr False"
    by blast
  have e4: "ungroupedItems (snd (updateGrouping mirroredLayout rtlWidenedToolbar)) = [bold]"
    "groupedItems (snd (updateGrouping mirroredLayout rtlWidenedToolbar)) = [italic]"
    unfolding rtlWidenedToolbar_eq
    by (simp_all add: js_defs collection_defs toolbar_defs loop_simps rtl_examples)
  have ltr: "grouping_wf threeItemToolbar \<and> inDocumentBody wideLayout \<and> separatorBlind wideLayout
   \<and> \<not> isOverflowing wideLayout threeItemToolbar
   \<and> fst (updateGrouping wideLayout threeItemToolbar) = Inr ()
   \<and> ungroupedItems widenedToolbar = [bold, italic] \<and> groupedItems widenedToolbar = [link]
   \<and> fst (areItemsOverflowing wideLayout widenedToolbar) = Inr False
   \<and> overflowsAt wideLayout threeItemToolbar 3
   \<and> grouping_wf widenedToolbar \<and> inDocumentBody narrowLayout \<and> separatorBlind narrowLayout
   \<and> isOverflowing narrowLayout widenedToolbar
   \<and> fst (updateGrouping narrowLayout widenedToolbar) = Inr ()
   \<and> ungroupedItems (snd (updateGrouping narrowLayout widenedToolbar)) = [bold]
   \<and> groupedItems (snd (updateGrouping narrowLayout widenedToolbar)) = [italic, link]
   \<and> fst (areItemsOverflowing narrowLayout (snd (updateGrouping narrowLayout widenedToolbar)))
       = Inr False"
    using wf1 att blind fits1 run1 wf2' no1 g1 s' w over2 run2 no2 e
    by (simp add: numeral_3_eq_3)
  have rtl: "grouping_wf rtlToolbar \<and> inDocumentBody mirroredWideLayout \<and> separatorBlind mirroredWideLayout
   \<and> \<not> isOverflowing mirroredWideLayout rtlToolbar
   \<and> fst (updateGrouping mirroredWideLayout rtlToolbar) = Inr ()
   \<and> ungroupedItems rtlWidenedToolbar = [bold, italic] \<and> groupedItems rtlWidenedToolbar = []
   \<and> fst (areItemsOverflowing mirroredWideLayout rtlWidenedToolbar) = Inr False
   \<and> grouping_wf rtlWidenedToolbar \<and> inDocumentBody mirroredLayout \<and> separatorBlind mirroredLayout
   \<and> isOverflowing mirroredLayout rtlWidenedToolbar
   \<and> fst (updateGrouping mirroredLayout rtlWidenedToolbar) = Inr ()
   \<and> ungroupedItems (snd (updateGrouping mirroredLayout rtlWidenedToolbar)) = [bold]
   \<and> groupedItems (snd (updateGrouping mirroredLayout rtlWidenedToolbar)) = [italic]
   \<and> fst (areItemsOverflowing mirroredLayout (snd (updateGrouping mirroredLayout rtlWidenedToolbar)))
       = Inr False"
    using wf3 att3 blind3 fits3 run3 wf4' no3 s3 w3 over4 run4 no4 e4 by simp
  from ltr rtl show ?thesis by blast
qed

subsection \<open>The length of the loops\<close>

lemma length_remove1_Suc: "x \<in> set xs \<Longrightarrow> Suc (length (remove1 x xs)) = length xs"
  by (induction xs) auto

lemma ungroupedItems_remove_Suc:
  assumes "ungroupedItems_remove subject s = (Inr v, s')"
  shows "Suc (length (ungroupedItems s')) = length (ungroupedItems s)"
proof -
  from assms obtain s1 where s1: "onUngroupedItems (collection_remove subject) s = (Inr v, s1)"
    and s': "updateFocusCycleableItems s1 = (Inr (), s')"
    by (auto simp: ungroupedItems_remove_def withResult_def andThen_def returns_def
        split: prod.splits sum.splits)
  have "ungroupedItems s' = ungroupedItems s1"
    using updateFocusCycleableItems_result[OF s'] by simp
  moreover from s1 have "Suc (length (ungroupedItems s1)) = length (ungroupedItems s)"
    by (auto simp: onUngroupedItems_def collection_remove_def length_remove1_Suc
        split: option.splits if_splits)
  ultimately show ?thesis by simp
qed

lemma groupLastItem_Suc:
  assumes "groupLastItem s = (Inr u, s')"
  shows "Suc (length (ungroupedItems s')) = length (ungroupedItems s)"
proof -
  let ?P = "if groupedItems s = []
        then andThen (withResult new_ToolbarSeparatorView viewChildren_add)
               (andThen (viewChildren_add GroupedItemsDropdown)
                  (focusTracker_add GroupedItemsDropdown))
        else returns ()"
  have P: "preserves ungroupedItems ?P"
    by (intro preserves_rules viewChildren_add_ungrouped) simp_all
  from assms obtain w sA item sB where sA: "?P s = (Inr w, sA)"
    and sB: "ungroupedItems_remove (collection_last (ungroupedItems sA)) sA = (Inr item, sB)"
    and s': "onGroupedItems (collection_add item (Some 0)) sB = (Inr u, s')"
    by (auto simp: groupLastItem_def andThen_def withResult_def split: prod.splits sum.splits)
  have "ungroupedItems sA = ungroupedItems s" using P sA by (rule preservesD)
  moreover have "Suc (length (ungroupedItems sB)) = length (ungroupedItems sA)"
    using sB by (rule ungroupedItems_remove_Suc)
  moreover have "ungroupedItems s' = ungroupedItems sB"
    using s' by (auto simp: onGroupedItems_def split: prod.splits)
  ultimately show ?thesis by simp
qed

lemma ungroupFirstItem_Suc:
  assumes "ungroupFirstItem s = (Inr u, s')"
  shows "Suc (length (groupedItems s')) = length (groupedItems s)"
proof -
  from assms obtain item s1 where
    s1: "onGroupedItems (collection_remove (collection_first (groupedItems s))) s = (Inr item, s1)"
    by (auto simp: ungroupFirstItem_def andThen_def withResult_def split: prod.splits sum.splits)
  let ?rest = "andThen (ungroupedItems_add item None)
       (\<lambda>s. if groupedItems s = []
            then andThen (viewChildren_remove (Some GroupedItemsDropdown))
                   (andThen (\<lambda>s'. viewChildren_remove (collection_last (children s')) s')
                      (focusTracker_remove GroupedItemsDropdown)) s
            else (Inr (), s))"
  from assms s1 have r: "?rest s1 = (Inr u, s')"
    by (auto simp: ungroupFirstItem_def andThen_def withResult_def split: prod.splits sum.splits)
  have a: "preserves groupedItems (ungroupedItems_add item None)"
    unfolding ungroupedItems_add_def by (intro preserves_rules) simp_all
  have vr: "\<And>subject. preserves groupedItems (viewChildren_remove subject)"
    unfolding viewChildren_remove_def by (intro preserves_rules) simp_all
  have c: "preserves groupedItems (andThen (viewChildren_remove (Some GroupedItemsDropdown))
                   (andThen (\<lambda>s'. viewChildren_remove (collection_last (children s')) s')
                      (focusTracker_remove GroupedItemsDropdown)))"
    by (intro preserves_andThen vr viewChildren_remove_grouped preserves_focusTracker_remove) simp
  have e: "preserves groupedItems (\<lambda>s. (Inr (), s))"
    by (simp add: preserves_def)
  have "preserves groupedItems ?rest"
    by (rule preserves_andThen[OF a]) (rule preserves_state_if[OF c e])
  then have "groupedItems s' = groupedItems s1" using r by (rule preservesD)
  moreover from s1 have "Suc (length (groupedItems s1)) = length (groupedItems s)"
    by (auto simp: onGroupedItems_def collection_remove_def length_remove1_Suc
        split: option.splits if_splits)
  ultimately show ?thesis by simp
qed

lemma groupingIterations_bound:
  "groupingIterations env s \<le> length (ungroupedItems s)
   \<and> (completed (groupWhileOverflowing env w s) \<longrightarrow>
        length (ungroupedItems (snd (groupWhileOverflowing env w s))) + groupingIterations env s
          = length (ungroupedItems s))"
proof (induction "length (ungroupedItems s)" arbitrary: s w rule: less_induct)
  case less
  obtain r s1 where a: "areItemsOverflowing env s = (r, s1)" by force
  note m = measured[OF a]
  show ?case
  proof (cases "isOverflowing env s")
    case False
    have "groupingIterations env s = 0"
      using a m(1) False by (subst groupingIterations.simps) simp
    moreover have "groupWhileOverflowing env w s = (Inr w, s1)"
      using a m(1) False by (subst groupWhileOverflowing.simps) simp
    ultimately show ?thesis using m(2) by simp
  next
    case True
    obtain r2 s2 where g: "groupLastItem s1 = (r2, s2)" by force
    have ne: "ungroupedItems s \<noteq> []" using True by (rule isOverflowing_nonempty)
    show ?thesis
    proof (cases r2)
      case (Inl e)
      have "groupingIterations env s = 1"
        using a m(1) True g Inl by (subst groupingIterations.simps) simp
      moreover have "groupWhileOverflowing env w s = (Inl e, s2)"
        using a m(1) True g Inl by (subst groupWhileOverflowing.simps) simp
      ultimately show ?thesis using ne by (cases "ungroupedItems s") (simp_all add: completed_def)
    next
      case (Inr u)
      with g have l: "Suc (length (ungroupedItems s2)) = length (ungroupedItems s)"
        using groupLastItem_Suc[of s1 u s2] m(2) by simp
      then have lt: "length (ungroupedItems s2) < length (ungroupedItems s)" by simp
      have "groupingIterations env s = Suc (groupingIterations env s2)"
        using a m(1) True g Inr by (subst groupingIterations.simps) simp
      moreover have "groupWhileOverflowing env w s = groupWhileOverflowing env True s2"
        using a m(1) True g Inr by (subst groupWhileOverflowing.simps) simp
      ultimately show ?thesis using less[OF lt, of True] l by auto
    qed
  qed
qed

lemma ungroupingIterations_bound:
  "ungroupingIterations env s \<le> length (groupedItems s)
   \<and> (completed (ungroupWhileFitting env s) \<longrightarrow>
        length (groupedItems (snd (ungroupWhileFitting env s))) + ungroupingIterations env s
          = length (groupedItems s))"
proof (induction "length (groupedItems s)" arbitrary: s rule: less_induct)
  case less
  show ?case
  proof (cases "groupedItems s = []")
    case True
    have "ungroupingIterations env s = 0"
      using True by (subst ungroupingIterations.simps) simp
    moreover have "ungroupWhileFitting env s = (Inr (), s)"
      using True by (subst ungroupWhileFitting.simps) simp
    ultimately show ?thesis by simp
  next
    case ne: False
    obtain r s1 where a: "areItemsOverflowing env s = (r, s1)" by force
    note m = measured[OF a]
    show ?thesis
    proof (cases "isOverflowing env s")
      case True
      have "ungroupingIterations env s = 0"
        using a m(1) True ne by (subst ungroupingIterations.simps) simp
      moreover have "ungroupWhileFitting env s = (Inr (), s1)"
        using a m(1) True ne by (subst ungroupWhileFitting.simps) simp
      ultimately show ?thesis using m(3) by simp
    next
      case False
      obtain r2 s2 where g: "ungroupFirstItem s1 = (r2, s2)" by force
      show ?thesis
      proof (cases r2)
        case (Inl e)
        have "ungroupingIterations env s = 1"
          using a m(1) False g Inl ne by (subst ungroupingIterations.simps) simp
        moreover have "ungroupWhileFitting env s = (Inl e, s2)"
          using a m(1) False g Inl ne by (subst ungroupWhileFitting.simps) simp
        ultimately show ?thesis using ne by (cases "groupedItems s") (simp_all add: completed_def)
      next
        case (Inr u)
        with g have l: "Suc (length (groupedItems s2)) = length (groupedItems s)"
          using ungroupFirstItem_Suc[of s1 u s2] m(3) by simp
        then have lt: "length (groupedItems s2) < length (groupedItems s)" by simp
        have "ungroupingIterations env s = Suc (ungroupingIterations env s2)"
          using a m(1) False g Inr ne by (subst ungroupingIterations.simps) simp
        moreover have "ungroupWhileFitting env s = ungroupWhileFitting env s2"
          using a m(1) False g Inr ne by (subst ungroupWhileFitting.simps) simp
        ultimately show ?thesis using less[OF lt] l by auto
      qed
    qed
  qed
qed


text \<open>
  Claim C9: the two loops of \<^verbatim>\<open>_updateGrouping\<close> end, in every state of the toolbar.
  \<^verbatim>\<open>_areItemsOverflowing\<close> is false when nothing is ungrouped; a \<^verbatim>\<open>_groupLastItem\<close>
  that returns has shortened \<^verbatim>\<open>ungroupedItems\<close> by one, and so the body of the first loop
  runs at most \<^verbatim>\<open>ungroupedItems.length\<close> times, exactly as often as the ungrouped items
  get fewer when the loop returns. In the same way a \<^verbatim>\<open>_ungroupFirstItem\<close> that returns has
  shortened \<^verbatim>\<open>groupedItems\<close> by one and the body of the second loop runs at most
  \<^verbatim>\<open>groupedItems.length\<close> times. (That the loop functions are total is their termination
  proof, by these two measures.)
\<close>

theorem grouping_loops_bounded:
  "(ungroupedItems s = [] \<longrightarrow> areItemsOverflowing env s = (Inr False, s))
   \<and> (\<forall>u s'. groupLastItem s = (Inr u, s')
         \<longrightarrow> Suc (length (ungroupedItems s')) = length (ungroupedItems s))
   \<and> groupingIterations env s \<le> length (ungroupedItems s)
   \<and> (completed (groupWhileOverflowing env w s) \<longrightarrow>
        length (ungroupedItems (snd (groupWhileOverflowing env w s))) + groupingIterations env s
          = length (ungroupedItems s))
   \<and> (\<forall>u s'. ungroupFirstItem s = (Inr u, s')
         \<longrightarrow> Suc (length (groupedItems s')) = length (groupedItems s))
   \<and> ungroupingIterations env s \<le> length (groupedItems s)
   \<and> (completed (ungroupWhileFitting env s) \<longrightarrow>
        length (groupedItems (snd (ungroupWhileFitting env s))) + ungroupingIterations env s
          = length (groupedItems s))"
  using groupingIterations_bound[of env s w] ungroupingIterations_bound[of env s]
  by (auto simp: areItemsOverflowing_def groupLastItem_Suc ungroupFirstItem_Suc)

theorem grouping_loops_bounded_witness:
  "ungroupedItems renderedToolbar = []
   \<and> areItemsOverflowing narrowLayout renderedToolbar = (Inr False, renderedToolbar)
   \<and> fst (groupLastItem widenedToolbar) = Inr ()
   \<and> length (ungroupedItems widenedToolbar) = 2
   \<and> length (ungroupedItems (snd (groupLastItem widenedToolbar))) = 1
   \<and> groupingIterations narrowLayout widenedToolbar = 1
   \<and> completed (groupWhileOverflowing narrowLayout False widenedToolbar)
   \<and> length (ungroupedItems (snd (groupWhileOverflowing narrowLayout False widenedToolbar))) = 1
   \<and> fst (ungroupFirstItem threeItemToolbar) = Inr ()
   \<and> length (groupedItems threeItemToolbar) = 2
   \<and> length (groupedItems (snd (ungroupFirstItem threeItemToolbar))) = 1
   \<and> ungroupingIterations wideLayout threeItemToolbar = 2
   \<and> completed (ungroupWhileFitting wideLayout threeItemToolbar)
   \<and> length (groupedItems (snd (ungroupWhileFitting wideLayout threeItemToolbar))) = 0"
proof -
  have r: "ungroupedItems renderedToolbar = []"
    by (simp add: renderedToolbar_eq ToolbarView_new_def)
  have a: "areItemsOverflowing narrowLayout renderedToolbar = (Inr False, renderedToolbar)"
    using grouping_loops_bounded[of renderedToolbar narrowLayout False] r by simp
  have g: "fst (groupLastItem widenedToolbar) = Inr ()" "length (ungroupedItems widenedToolbar) = 2"
    unfolding widenedToolbar_eq
    by (simp_all add: js_defs collection_defs toolbar_defs toolbar_examples)
  obtain s' where s': "groupLastItem widenedToolbar = (Inr (), s')"
    using g(1) by (cases "groupLastItem widenedToolbar") auto
  have g1: "length (ungroupedItems (snd (groupLastItem widenedToolbar))) = 1"
    using grouping_loops_bounded[of widenedToolbar narrowLayout False] s' g(2) by simp
  have c: "completed (groupWhileOverflowing narrowLayout False widenedToolbar)"
    "length (ungroupedItems (snd (groupWhileOverflowing narrowLayout False widenedToolbar))) = 1"
    unfolding widenedToolbar_eq
    by (simp_all add: js_defs collection_defs toolbar_defs loop_simps toolbar_examples)
  have i: "groupingIterations narrowLayout widenedToolbar = 1"
    using grouping_loops_bounded[of widenedToolbar narrowLayout False] c g(2) by simp
  have u: "fst (ungroupFirstItem threeItemToolbar) = Inr ()" "length (groupedItems threeItemToolbar) = 2"
    unfolding threeItemToolbar_eq
    by (simp_all add: js_defs collection_defs toolbar_defs toolbar_examples)
  obtain t' where t': "ungroupFirstItem threeItemToolbar = (Inr (), t')"
    using u(1) by (cases "ungroupFirstItem threeItemToolbar") auto
  have u1: "length (groupedItems (snd (ungroupFirstItem threeItemToolbar))) = 1"
    using grouping_loops_bounded[of threeItemToolbar wideLayout False] t' u(2) by simp
  have d: "completed (ungroupWhileFitting wideLayout threeItemToolbar)"
    "length (groupedItems (snd (ungroupWhileFitting wideLayout threeItemToolbar))) = 0"
    unfolding threeItemToolbar_eq
    by (simp_all add: js_defs collection_defs toolbar_defs loop_simps toolbar_examples)
  have j: "ungroupingIterations wideLayout threeItemToolbar = 2"
    using grouping_loops_bounded[of threeItemToolbar wideLayout False] d u(2) by simp
  show ?thesis using r a g g1 c i u u1 d j by simp
qed

subsection \<open>The focusables after a change\<close>

text \<open>
  Claim C8: under dynamic grouping the focusables are the ungrouped items, in their order,
  followed by the dropdown exactly when something is grouped, after every change of the
  ungrouped items and of the children. The comments of the source ask for the same: the
  dropdown is to be "included in cycling when it appears", and "when it is visible, it
  must be subject to focus cycling". \<^verbatim>\<open>_groupLastItem\<close> does not achieve it when it groups
  the first item: the dropdown joins the children and the item leaves the ungrouped items
  while nothing is grouped yet, so both recomputations leave the dropdown out, and the item
  joins the grouped items last, which recomputes nothing. A toolbar is rendered and
  \<open>bold\<close> and \<open>italic\<close> are added; the three calls return, \<open>italic\<close> is grouped, the
  dropdown is a child of the toolbar, and the focusables are \<open>bold\<close> alone.
\<close>

theorem focusables_without_dropdown:
  "fst (ToolbarView_render narrowLayout (ToolbarView_new ''ltr'' True)) = Inr ()
   \<and> fst (items_add narrowLayout bold None renderedToolbar) = Inr ()
   \<and> fst (items_add narrowLayout italic None (snd (items_add narrowLayout bold None renderedToolbar)))
       = Inr ()
   \<and> ungroupedItems twoItemToolbar = [bold]
   \<and> groupedItems twoItemToolbar = [italic]
   \<and> children twoItemToolbar = [ItemsView, ToolbarSeparatorView 0, GroupedItemsDropdown]
   \<and> focusables twoItemToolbar = [bold]
   \<and> focusCycleable twoItemToolbar = [bold, GroupedItemsDropdown]"
proof -
  have a: "fst (ToolbarView_render narrowLayout (ToolbarView_new ''ltr'' True)) = Inr ()"
    by (simp add: js_defs collection_defs toolbar_defs loop_simps toolbar_examples)
  have b: "fst (items_add narrowLayout bold None renderedToolbar) = Inr ()"
    "fst (items_add narrowLayout italic None (snd (items_add narrowLayout bold None renderedToolbar)))
       = Inr ()"
    unfolding renderedToolbar_eq
    by (simp_all add: js_defs collection_defs toolbar_defs loop_simps toolbar_examples)
  show ?thesis using a b by (simp add: twoItemToolbar_eq focusCycleable_def)
qed

text \<open>
  What the four listeners do achieve: an addition to or a removal from the ungrouped items
  or the children of the toolbar that returns leaves the focusables equal to the ungrouped
  items, in their order, followed by the dropdown exactly when something is grouped at that
  moment. The focusables are computed anew each time: what they were before does not
  matter. The recomputation cannot fail when no view is among the ungrouped items twice and
  the dropdown is not one of them.
\<close>

lemma focusables_recomputed:
  "(\<forall>u s'. ungroupedItems_add item index s = (Inr u, s') \<longrightarrow> focusables s' = focusCycleable s')
   \<and> (\<forall>v s'. ungroupedItems_remove subject s = (Inr v, s') \<longrightarrow> focusables s' = focusCycleable s')
   \<and> (\<forall>u s'. viewChildren_add child s = (Inr u, s') \<longrightarrow> focusables s' = focusCycleable s')
   \<and> (\<forall>v s'. viewChildren_remove removed s = (Inr v, s') \<longrightarrow> focusables s' = focusCycleable s')
   \<and> updateFocusCycleableItems (s\<lparr>focusables := before\<rparr>) = updateFocusCycleableItems s
   \<and> (distinct (ungroupedItems s) \<and> GroupedItemsDropdown \<notin> set (ungroupedItems s) \<longrightarrow>
        updateFocusCycleableItems s = (Inr (), s\<lparr>focusables := focusCycleable s\<rparr>))"
proof -
  have k: "focusables s' = focusCycleable s'" if "updateFocusCycleableItems s1 = (Inr u, s')"
    for s1 s' :: toolbar and u
    using updateFocusCycleableItems_result[OF that] by (simp add: focusCycleable_def)
  have 1: "focusables s' = focusCycleable s'" if "ungroupedItems_add item index s = (Inr u, s')" for u s'
    using that k by (auto simp: ungroupedItems_add_def andThen_def split: prod.splits sum.splits)
  have 2: "focusables s' = focusCycleable s'" if "ungroupedItems_remove subject s = (Inr v, s')" for v s'
    using that k
    by (auto simp: ungroupedItems_remove_def withResult_def andThen_def returns_def
        split: prod.splits sum.splits)
  have 3: "focusables s' = focusCycleable s'" if "viewChildren_add child s = (Inr u, s')" for u s'
    using that k by (auto simp: viewChildren_add_def andThen_def split: prod.splits sum.splits)
  have 4: "focusables s' = focusCycleable s'" if "viewChildren_remove removed s = (Inr v, s')" for v s'
    using that k
    by (auto simp: viewChildren_remove_def withResult_def andThen_def returns_def
        split: prod.splits sum.splits)
  have 5: "updateFocusCycleableItems (s\<lparr>focusables := before\<rparr>) = updateFocusCycleableItems s"
    by (simp add: updateFocusCycleableItems_def)
  show ?thesis using 1 2 3 4 5 updateFocusCycleableItems_success[of s] by blast
qed

lemma focusables_recomputed_witness:
  "ungroupedItems_add link None twoItemToolbar =
     (Inr (), twoItemToolbar\<lparr>ungroupedItems := [bold, link],
                             focusables := [bold, link, GroupedItemsDropdown]\<rparr>)
   \<and> focusCycleable (snd (ungroupedItems_add link None twoItemToolbar))
       = [bold, link, GroupedItemsDropdown]
   \<and> focusables (snd (ungroupedItems_add link None twoItemToolbar))
       = [bold, link, GroupedItemsDropdown]
   \<and> fst (ungroupedItems_remove (Some bold) twoItemToolbar) = Inr bold
   \<and> focusables (snd (ungroupedItems_remove (Some bold) twoItemToolbar)) = [GroupedItemsDropdown]
   \<and> fst (viewChildren_add link twoItemToolbar) = Inr ()
   \<and> focusables (snd (viewChildren_add link twoItemToolbar)) = [bold, GroupedItemsDropdown]
   \<and> fst (viewChildren_remove (Some GroupedItemsDropdown) twoItemToolbar) = Inr GroupedItemsDropdown
   \<and> focusables (snd (viewChildren_remove (Some GroupedItemsDropdown) twoItemToolbar))
       = [bold, GroupedItemsDropdown]
   \<and> distinct (ungroupedItems twoItemToolbar)
   \<and> GroupedItemsDropdown \<notin> set (ungroupedItems twoItemToolbar)
   \<and> updateFocusCycleableItems twoItemToolbar
       = (Inr (), twoItemToolbar\<lparr>focusables := [bold, GroupedItemsDropdown]\<rparr>)"
proof -
  note t = focusables_recomputed[of link None twoItemToolbar "Some bold" link
      "Some GroupedItemsDropdown" "[]"]
  have a: "ungroupedItems_add link None twoItemToolbar =
     (Inr (), twoItemToolbar\<lparr>ungroupedItems := [bold, link],
                             focusables := [bold, link, GroupedItemsDropdown]\<rparr>)"
    unfolding twoItemToolbar_eq
    by (simp add: js_defs collection_defs toolbar_defs toolbar_examples)
  have b: "fst (ungroupedItems_remove (Some bold) twoItemToolbar) = Inr bold"
    "fst (viewChildren_add link twoItemToolbar) = Inr ()"
    "fst (viewChildren_remove (Some GroupedItemsDropdown) twoItemToolbar) = Inr GroupedItemsDropdown"
    unfolding twoItemToolbar_eq
    by (simp_all add: js_defs collection_defs toolbar_defs toolbar_examples)
  have c: "focusCycleable (snd (ungroupedItems_add link None twoItemToolbar))
       = [bold, link, GroupedItemsDropdown]"
    "focusCycleable (snd (ungroupedItems_remove (Some bold) twoItemToolbar)) = [GroupedItemsDropdown]"
    "focusCycleable (snd (viewChildren_add link twoItemToolbar)) = [bold, GroupedItemsDropdown]"
    "focusCycleable (snd (viewChildren_remove (Some GroupedItemsDropdown) twoItemToolbar))
       = [bold, GroupedItemsDropdown]"
    "focusCycleable twoItemToolbar = [bold, GroupedItemsDropdown]"
    unfolding twoItemToolbar_eq
    by (simp_all add: focusCycleable_def js_defs collection_defs toolbar_defs toolbar_examples)
  have d: "distinct (ungroupedItems twoItemToolbar)"
    "GroupedItemsDropdown \<notin> set (ungroupedItems twoItemToolbar)"
    by (simp_all add: twoItemToolbar_eq toolbar_examples)
  have q: "focusables (snd (ungroupedItems_add link None twoItemToolbar))
       = [bold, link, GroupedItemsDropdown]"
    using t[THEN conjunct1, rule_format,
        of "()" "snd (ungroupedItems_add link None twoItemToolbar)"] a c(1)
    by (simp add: prod_eq_iff)
  have r: "focusables (snd (ungroupedItems_remove (Some bold) twoItemToolbar)) = [GroupedItemsDropdown]"
    using t[THEN conjunct2, THEN conjunct1, rule_format,
        of bold "snd (ungroupedItems_remove (Some bold) twoItemToolbar)"] b(1) c(2)
    by (simp add: prod_eq_iff)
  have v: "focusables (snd (viewChildren_add link twoItemToolbar)) = [bold, GroupedItemsDropdown]"
    using t[THEN conjunct2, THEN conjunct2, THEN conjunct1, rule_format,
        of "()" "snd (viewChildren_add link twoItemToolbar)"] b(2) c(3)
    by (simp add: prod_eq_iff)
  have w: "focusables (snd (viewChildren_remove (Some GroupedItemsDropdown) twoItemToolbar))
       = [bold, GroupedItemsDropdown]"
    using t[THEN conjunct2, THEN conjunct2, THEN conjunct2, THEN conjunct1, rule_format,
        of GroupedItemsDropdown "snd (viewChildren_remove (Some GroupedItemsDropdown) twoItemToolbar)"]
      b(3) c(4)
    by (simp add: prod_eq_iff)
  have u: "updateFocusCycleableItems twoItemToolbar
       = (Inr (), twoItemToolbar\<lparr>focusables := [bold, GroupedItemsDropdown]\<rparr>)"
    using t[THEN conjunct2, THEN conjunct2, THEN conjunct2, THEN conjunct2, THEN conjunct2] d c(5)
    by simp
  show ?thesis using a b c d q r v w u by simp
qed


subsection \<open>What the calls on the items leave alone\<close>

lemma frame_call_grouping: "callFrame Q \<Longrightarrow> groupingFrame Q"
  by (simp add: callFrame_def)

lemma frame_call_step: "callFrame Q \<Longrightarrow> stepFrame Q"
  by (simp add: callFrame_def groupingFrame_def)

lemma frame_focusables: "callFrame Q \<Longrightarrow> preserves Q (onFocusables f)"
  by (rule preserves_onFocusables) (simp add: callFrame_def groupingFrame_def stepFrame_def)

lemma frame_tracker:
  assumes "callFrame Q"
  shows "preserves Q (\<lambda>s'. if isRendered s' then focusTracker_add item s' else (Inr (), s'))"
    and "preserves Q (\<lambda>s'. if isRendered s' then focusTracker_remove item s' else (Inr (), s'))"
proof -
  have a: "preserves Q (focusTracker_add item)"
    using assms
    by (intro preserves_focusTracker_add) (simp add: callFrame_def groupingFrame_def stepFrame_def)
  have r: "preserves Q (focusTracker_remove item)"
    using assms
    by (intro preserves_focusTracker_remove) (simp add: callFrame_def groupingFrame_def stepFrame_def)
  have e: "preserves Q (\<lambda>s. (Inr (), s))" by (simp add: preserves_def)
  show "preserves Q (\<lambda>s'. if isRendered s' then focusTracker_add item s' else (Inr (), s'))"
    using a e by (rule preserves_state_if)
  show "preserves Q (\<lambda>s'. if isRendered s' then focusTracker_remove item s' else (Inr (), s'))"
    using r e by (rule preserves_state_if)
qed

lemma frame_items_add:
  assumes "callFrame Q"
  shows "preserves Q (items_add env item index)"
  unfolding preserves_def
proof
  fix s :: toolbar
  let ?i = "case index of None \<Rightarrow> length (items s) | Some i \<Rightarrow> i"
  have d: "preserves Q (DynamicGrouping_onItemsAdd env item ?i)"
    unfolding preserves_def
  proof
    fix t :: toolbar
    have "preserves Q (andThen
       (if ?i > length (ungroupedItems t)
        then onGroupedItems (collection_add item (Some (?i - length (ungroupedItems t))))
        else ungroupedItems_add item (Some ?i))
       (updateGrouping env))"
      by (intro preserves_andThen preserves_if frame_onGroupedItems frame_ungroupedItems_add
          frame_updateGrouping frame_call_grouping frame_call_step assms)
    then show "Q (snd (DynamicGrouping_onItemsAdd env item ?i t)) = Q t"
      by (simp add: preserves_def DynamicGrouping_onItemsAdd_def)
  qed
  have st: "preserves Q (StaticLayout_onItemsAdd item ?i)"
    unfolding StaticLayout_onItemsAdd_def by (rule frame_focusables[OF assms])
  have i: "preserves Q (onItems (collection_add item index))"
    using assms by (intro preserves_onItems) (simp add: callFrame_def)
  have "preserves Q (andThen (onItems (collection_add item index))
           (andThen
              (if shouldGroupWhenFull s
               then DynamicGrouping_onItemsAdd env item ?i
               else StaticLayout_onItemsAdd item ?i)
              (\<lambda>s'. if isRendered s' then focusTracker_add item s' else (Inr (), s'))))"
    by (intro preserves_andThen preserves_if i d st frame_tracker[OF assms])
  then show "Q (snd (items_add env item index s)) = Q s"
    by (simp add: preserves_def items_add_def Let_def)
qed

lemma frame_items_remove:
  assumes "callFrame Q"
  shows "preserves Q (items_remove env item)"
  unfolding preserves_def
proof
  fix s :: toolbar
  let ?i = "getIndex item (items s)"
  have d: "preserves Q (DynamicGrouping_onItemsRemove env item ?i)"
    unfolding preserves_def
  proof
    fix t :: toolbar
    have "preserves Q (andThen
       (if ?i > length (ungroupedItems t)
        then onGroupedItems (collection_remove (Some item))
        else ungroupedItems_remove (Some item))
       (updateGrouping env))"
      by (intro preserves_andThen preserves_if frame_onGroupedItems frame_ungroupedItems_remove
          frame_updateGrouping frame_call_grouping frame_call_step assms)
    then show "Q (snd (DynamicGrouping_onItemsRemove env item ?i t)) = Q t"
      by (simp add: preserves_def DynamicGrouping_onItemsRemove_def)
  qed
  have st: "preserves Q (andThen (StaticLayout_onItemsRemove item) (returns ()))"
    unfolding StaticLayout_onItemsRemove_def
    by (intro preserves_andThen preserves_returns frame_focusables[OF assms])
  have i: "preserves Q (onItems (collection_remove (Some item)))"
    using assms by (intro preserves_onItems) (simp add: callFrame_def)
  have "preserves Q (andThen (onItems (collection_remove (Some item)))
           (andThen
              (if shouldGroupWhenFull s
               then DynamicGrouping_onItemsRemove env item ?i
               else andThen (StaticLayout_onItemsRemove item) (returns ()))
              (\<lambda>s'. if isRendered s' then focusTracker_remove item s' else (Inr (), s'))))"
    by (intro preserves_andThen preserves_if i d st frame_tracker[OF assms])
  then show "Q (snd (items_remove env item s)) = Q s"
    by (simp add: preserves_def items_remove_def Let_def)
qed

lemma frame_fillFromConfig:
  assumes "callFrame Q"
  shows "preserves Q (fillFromConfig env config factory)"
proof (induction config)
  case Nil
  show ?case by (simp add: preserves_returns)
next
  case (Cons name config)
  have n: "preserves Q new_ToolbarSeparatorView"
    using assms
    by (intro preserves_new_ToolbarSeparatorView) (simp add: callFrame_def groupingFrame_def stepFrame_def)
  have c: "preserves Q (factory_create name)"
    using assms
    by (intro preserves_factory_create) (simp add: callFrame_def groupingFrame_def stepFrame_def)
  have w: "preserves Q (warn name)"
    using assms by (simp add: preserves_def warn_def callFrame_def)
  show ?case
    unfolding fillFromConfig.simps
    by (intro preserves_andThen preserves_if preserves_withResult n c w frame_items_add assms Cons.IH)
qed

lemma frame_call:
  assumes "callFrame Q"
  shows "Q (snd (call env c s)) = Q s"
  using frame_items_add[OF assms] frame_items_remove[OF assms] frame_fillFromConfig[OF assms]
  by (cases c) (simp_all add: preserves_def)

lemma frame_afterCalls:
  assumes "callFrame Q"
  shows "Q (afterCalls env calls s) = Q s"
  unfolding afterCalls_def
  by (induction calls arbitrary: s) (simp_all add: frame_call[OF assms])

subsection \<open>Destroying the toolbar\<close>

lemma render_resizeObserver:
  assumes "shouldGroupWhenFull s" "\<not> isRendered s"
  shows "resizeObserver (snd (ToolbarView_render env s)) = Some Observing"
proof -
  have "groupingFrame resizeObserver" by (simp add: groupingFrame_def stepFrame_def)
  then have "preserves resizeObserver (updateGrouping env)" by (rule frame_updateGrouping)
  then have "\<And>t. resizeObserver (snd (updateGrouping env t)) = resizeObserver t"
    by (simp add: preserves_def)
  then show ?thesis using assms
    by (simp add: ToolbarView_render_def andThen_def DynamicGrouping_render_def
        enableGroupingOnResize_def)
qed

text \<open>
  Claim C10: a toolbar constructed with \<^verbatim>\<open>shouldGroupWhenFull\<close> cannot be destroyed before
  it is rendered. \<^verbatim>\<open>resizeObserver\<close> is \<^verbatim>\<open>null\<close> in the new toolbar and stays so whatever
  items are added, removed or filled in from a configuration; \<^verbatim>\<open>destroy()\<close> then throws a
  type error at \<^verbatim>\<open>this.resizeObserver.disconnect()\<close>. \<^verbatim>\<open>render()\<close> assigns the resize
  observer, and once it is assigned \<^verbatim>\<open>destroy()\<close> returns.
\<close>

theorem destroy_before_render_throws:
  "resizeObserver (afterCalls env calls (ToolbarView_new direction True)) = None
   \<and> fst (ToolbarView_destroy (afterCalls env calls (ToolbarView_new direction True))) = Inl TypeError
   \<and> (shouldGroupWhenFull s \<and> resizeObserver s = None \<longrightarrow> fst (ToolbarView_destroy s) = Inl TypeError)
   \<and> (shouldGroupWhenFull s \<and> \<not> isRendered s \<longrightarrow>
        resizeObserver (snd (ToolbarView_render env s)) = Some Observing)
   \<and> (resizeObserver s \<noteq> None \<longrightarrow> fst (ToolbarView_destroy s) = Inr ())
   \<and> fst (ToolbarView_destroy
            (snd (ToolbarView_render env (afterCalls env calls (ToolbarView_new direction True)))))
       = Inr ()"
proof -
  let ?fresh = "ToolbarView_new direction True"
  let ?used = "afterCalls env calls ?fresh"
  have f: "callFrame resizeObserver" "callFrame shouldGroupWhenFull" "callFrame isRendered"
    by (simp_all add: callFrame_def groupingFrame_def stepFrame_def)
  have r: "resizeObserver ?used = None" "shouldGroupWhenFull ?used" "\<not> isRendered ?used"
    using frame_afterCalls[OF f(1), of env calls ?fresh]
      frame_afterCalls[OF f(2), of env calls ?fresh]
      frame_afterCalls[OF f(3), of env calls ?fresh]
    by (simp_all add: ToolbarView_new_def)
  have d: "fst (ToolbarView_destroy t) = Inl TypeError"
    if "shouldGroupWhenFull t" "resizeObserver t = None" for t :: toolbar
    using that by (simp add: ToolbarView_destroy_def DynamicGrouping_destroy_def andThen_def)
  have o: "fst (ToolbarView_destroy t) = Inr ()" if "resizeObserver t \<noteq> None" for t :: toolbar
    using that
    by (cases "shouldGroupWhenFull t")
       (auto simp: ToolbarView_destroy_def DynamicGrouping_destroy_def andThen_def returns_def)
  have "resizeObserver (snd (ToolbarView_render env ?used)) = Some Observing"
    using r(2,3) by (rule render_resizeObserver)
  then have "fst (ToolbarView_destroy (snd (ToolbarView_render env ?used))) = Inr ()"
    by (intro o) simp
  then show ?thesis using r d o render_resizeObserver by blast
qed

theorem destroy_before_render_throws_witness:
  "shouldGroupWhenFull (ToolbarView_new ''ltr'' True)
   \<and> resizeObserver (ToolbarView_new ''ltr'' True) = None
   \<and> fst (ToolbarView_destroy (ToolbarView_new ''ltr'' True)) = Inl TypeError
   \<and> fst (ToolbarView_destroy
            (afterCalls narrowLayout [AddItem bold None, FillFromConfig [''|''] (\<lambda>name. False)]
               (ToolbarView_new ''ltr'' True))) = Inl TypeError
   \<and> \<not> isRendered (ToolbarView_new ''ltr'' True)
   \<and> resizeObserver renderedToolbar = Some Observing
   \<and> fst (ToolbarView_destroy renderedToolbar) = Inr ()"
proof -
  let ?fresh = "ToolbarView_new ''ltr'' True"
  note t = destroy_before_render_throws[of narrowLayout
      "[AddItem bold None, FillFromConfig [''|''] (\<lambda>name. False)]" "''ltr''" ?fresh]
  have h: "shouldGroupWhenFull ?fresh" "resizeObserver ?fresh = None" "\<not> isRendered ?fresh"
    by (simp_all add: ToolbarView_new_def)
  have a: "fst (ToolbarView_destroy ?fresh) = Inl TypeError"
    using t[THEN conjunct2, THEN conjunct2, THEN conjunct1] h by simp
  have b: "resizeObserver renderedToolbar = Some Observing"
    using t[THEN conjunct2, THEN conjunct2, THEN conjunct2, THEN conjunct1] h
    by (simp add: renderedToolbar_def)
  have c: "fst (ToolbarView_destroy renderedToolbar) = Inr ()"
    using destroy_before_render_throws[of narrowLayout "[]" "''ltr''" renderedToolbar,
        THEN conjunct2, THEN conjunct2, THEN conjunct2, THEN conjunct2, THEN conjunct1] b
    by simp
  show ?thesis using h a b c t[THEN conjunct2, THEN conjunct1] by simp
qed

subsection \<open>Filling the toolbar from a configuration\<close>

text \<open>
  Claim C7: \<^verbatim>\<open>fillFromConfig\<close> adds, in the order of the configuration, a separator for
  every \<^verbatim>\<open>'|'\<close> and the component for every name the factory has, and skips every other
  name with a warning and without an exception, whatever the configuration and the factory.
  On a toolbar constructed with \<^verbatim>\<open>shouldGroupWhenFull\<close> and not rendered yet it does not:
  \<^verbatim>\<open>viewElement\<close> is \<^verbatim>\<open>undefined\<close> there, the listener of the add event runs
  \<^verbatim>\<open>_updateGrouping\<close>, and its first test, which its comment says is there to do nothing
  "before #render()", throws a type error at \<^verbatim>\<open>this.viewElement.ownerDocument\<close>. With the
  configuration \<^verbatim>\<open>[ 'bold', 'italic', '|', 'link', 'foo' ]\<close> and a factory that has \<open>bold\<close>,
  \<open>italic\<close> and \<open>link\<close>, in every layout and text direction, the exception leaves
  \<^verbatim>\<open>fillFromConfig\<close> when \<open>bold\<close> is added: \<open>bold\<close> is the only item, and the rest
  of the configuration is not looked at.
\<close>

theorem fillFromConfig_before_render:
  "hasViewElement (ToolbarView_new direction True) = False
   \<and> fst (fillFromConfig env exampleConfig basicStyles (ToolbarView_new direction True))
       = Inl TypeError
   \<and> items (snd (fillFromConfig env exampleConfig basicStyles (ToolbarView_new direction True)))
       = [ComponentView ''bold'' 0]
   \<and> warnings (snd (fillFromConfig env exampleConfig basicStyles (ToolbarView_new direction True)))
       = []"
  by (simp add: exampleConfig_def basicStyles_def js_defs collection_defs toolbar_defs)

text \<open>
  The rest of this section is about the toolbars on which \<^verbatim>\<open>fillFromConfig\<close> does what
  is asked of it: the toolbars that are ready to take items.
\<close>

lemma updateGrouping_safe:
  assumes wf: "grouping_wf s"
  shows "\<exists>s'. updateGrouping env s = (Inr (), s') \<and> grouping_wf s'
      \<and> ungroupedItems s' @ groupedItems s' = ungroupedItems s @ groupedItems s
      \<and> viewsCreated s \<le> viewsCreated s'"
proof (cases "inDocumentBody env")
  case True
  with updateGrouping_correct[OF wf] show ?thesis by blast
next
  case False
  with wf have "updateGrouping env s = (Inr (), s)"
    by (simp add: updateGrouping_def grouping_wf_def)
  with wf show ?thesis by simp
qed

lemma take_length_append_new: "take (length xs) xs @ item # drop (length xs) xs = xs @ [item]"
  by simp

lemma onItemsAdd_grouping:
  assumes wf: "grouping_wf s" and new: "item \<notin> set (ungroupedItems s @ groupedItems s)"
    and dd: "item \<noteq> GroupedItemsDropdown"
  shows "\<exists>s'. DynamicGrouping_onItemsAdd env item
            (length (ungroupedItems s) + length (groupedItems s)) s = (Inr (), s')
      \<and> grouping_wf s'
      \<and> ungroupedItems s' @ groupedItems s' = ungroupedItems s @ groupedItems s @ [item]
      \<and> viewsCreated s \<le> viewsCreated s'
      \<and> items s' = items s \<and> warnings s' = warnings s \<and> isRendered s' = isRendered s"
proof -
  let ?i = "length (ungroupedItems s) + length (groupedItems s)"
  let ?first = "if ?i > length (ungroupedItems s)
        then onGroupedItems (collection_add item (Some (?i - length (ungroupedItems s))))
        else ungroupedItems_add item (Some ?i)"
  have "\<exists>s1. ?first s = (Inr (), s1) \<and> grouping_wf s1
      \<and> ungroupedItems s1 @ groupedItems s1 = ungroupedItems s @ groupedItems s @ [item]
      \<and> viewsCreated s1 = viewsCreated s
      \<and> items s1 = items s \<and> warnings s1 = warnings s \<and> isRendered s1 = isRendered s"
  proof (cases "groupedItems s = []")
    case True
    with wf new dd show ?thesis
      by (simp add: ungroupedItems_add_def onUngroupedItems_def andThen_def collection_add_def
          updateFocusCycleableItems_success grouping_wf_def)
  next
    case False
    with wf new dd show ?thesis
      by (simp add: onGroupedItems_def collection_add_def grouping_wf_def)
  qed
  then obtain s1 where s1: "?first s = (Inr (), s1)" and wf1: "grouping_wf s1"
    and cat1: "ungroupedItems s1 @ groupedItems s1 = ungroupedItems s @ groupedItems s @ [item]"
    and f1: "viewsCreated s1 = viewsCreated s" "items s1 = items s" "warnings s1 = warnings s"
      "isRendered s1 = isRendered s"
    by blast
  from updateGrouping_safe[OF wf1, of env] obtain s2 where
    s2: "updateGrouping env s1 = (Inr (), s2)" and wf2: "grouping_wf s2"
    and cat2: "ungroupedItems s2 @ groupedItems s2 = ungroupedItems s1 @ groupedItems s1"
    and vc2: "viewsCreated s1 \<le> viewsCreated s2"
    by blast
  have g: "groupingFrame items" "groupingFrame warnings" "groupingFrame isRendered"
    by (simp_all add: groupingFrame_def stepFrame_def)
  have f2: "items s2 = items s1" "warnings s2 = warnings s1" "isRendered s2 = isRendered s1"
    using frame_updateGrouping[OF g(1), of env] frame_updateGrouping[OF g(2), of env]
      frame_updateGrouping[OF g(3), of env] s2
    by (auto dest: preservesD)
  have "DynamicGrouping_onItemsAdd env item ?i s = (Inr (), s2)"
    using s1 s2 by (simp add: DynamicGrouping_onItemsAdd_def andThen_def)
  then show ?thesis using wf2 cat2 cat1 vc2 f1 f2 by auto
qed

lemma items_add_ready:
  assumes parts: "itemsInParts s" and new: "item \<notin> set (items s)"
    and dd: "item \<noteq> GroupedItemsDropdown"
  shows "\<exists>s'. items_add env item None s = (Inr (), s') \<and> itemsInParts s'
      \<and> items s' = items s @ [item] \<and> warnings s' = warnings s
      \<and> viewsCreated s \<le> viewsCreated s'"
proof (cases "shouldGroupWhenFull s")
  case False
  with parts have foc: "focusables s = items s" by (simp add: itemsInParts_def)
  let ?s' = "s\<lparr>items := items s @ [item], focusables := focusables s @ [item]\<rparr>"
  let ?s'' = "if isRendered s then ?s'\<lparr>focusTracker := tracker_add item (focusTracker s)\<rparr> else ?s'"
  have "items_add env item None s = (Inr (), ?s'')"
    using False new foc
    by (simp add: items_add_def Let_def onItems_def collection_add_def andThen_def
        StaticLayout_onItemsAdd_def onFocusables_def focusTracker_add_def)
  then show ?thesis using False foc by (auto simp: itemsInParts_def)
next
  case True
  with parts have wf: "grouping_wf s" and it: "items s = ungroupedItems s @ groupedItems s"
    by (simp_all add: itemsInParts_def)
  let ?s1 = "s\<lparr>items := items s @ [item]\<rparr>"
  have wf1: "grouping_wf ?s1" using wf by (simp add: grouping_wf_def)
  have new1: "item \<notin> set (ungroupedItems ?s1 @ groupedItems ?s1)" using new it by simp
  from onItemsAdd_grouping[OF wf1 new1 dd, of env] obtain s2 where
    s2: "DynamicGrouping_onItemsAdd env item (length (ungroupedItems s) + length (groupedItems s)) ?s1
        = (Inr (), s2)"
    and wf2: "grouping_wf s2"
    and cat2: "ungroupedItems s2 @ groupedItems s2 = ungroupedItems s @ groupedItems s @ [item]"
    and vc2: "viewsCreated s \<le> viewsCreated s2"
    and f2: "items s2 = items s @ [item]" "warnings s2 = warnings s" "isRendered s2 = isRendered s"
    by auto
  let ?s3 = "if isRendered s2 then s2\<lparr>focusTracker := tracker_add item (focusTracker s2)\<rparr> else s2"
  have len: "length (items s) = length (ungroupedItems s) + length (groupedItems s)"
    using it by simp
  have "items_add env item None s = (Inr (), ?s3)"
    using True new s2 len
    by (simp add: items_add_def Let_def onItems_def collection_add_def andThen_def
        focusTracker_add_def)
  moreover have "itemsInParts ?s3"
  proof -
    have sg: "shouldGroupWhenFull s2" using wf2 by (simp add: grouping_wf_def)
    have p2: "itemsInParts s2" using wf2 sg cat2 f2(1) it by (simp add: itemsInParts_def)
    have "itemsInParts (s2\<lparr>focusTracker := tracker_add item (focusTracker s2)\<rparr>) = itemsInParts s2"
      by (simp add: itemsInParts_def grouping_wf_def)
    with p2 show ?thesis by simp
  qed
  ultimately show ?thesis using f2 vc2 by auto
qed

lemma createdBefore_mono: "createdBefore n v \<Longrightarrow> n \<le> m \<Longrightarrow> createdBefore m v"
  by (cases v) auto

lemma createdBefore_new:
  assumes "list_all (createdBefore n) xs"
  shows "ToolbarSeparatorView n \<notin> set xs" "ComponentView name n \<notin> set xs"
  using assms by (auto simp: list_all_iff)

lemma add_new_view:
  assumes ready: "toolbar_ready s"
    and v: "v = ToolbarSeparatorView (viewsCreated s) \<or> v = ComponentView name (viewsCreated s)"
  shows "\<exists>s'. items_add env v None (s\<lparr>viewsCreated := Suc (viewsCreated s)\<rparr>) = (Inr (), s')
      \<and> toolbar_ready s' \<and> items s' = items s @ [v] \<and> warnings s' = warnings s"
proof -
  let ?s1 = "s\<lparr>viewsCreated := Suc (viewsCreated s)\<rparr>"
  from ready have fresh: "list_all (createdBefore (viewsCreated s)) (items s)"
    and parts: "itemsInParts s"
    by (simp_all add: toolbar_ready_def)
  have "itemsInParts ?s1 = itemsInParts s" by (simp add: itemsInParts_def grouping_wf_def)
  with parts have parts1: "itemsInParts ?s1" by simp
  have new: "v \<notin> set (items ?s1)" using v createdBefore_new[OF fresh] by auto
  have dd: "v \<noteq> GroupedItemsDropdown" using v by auto
  from items_add_ready[OF parts1 new dd, of env] obtain s' where
    run: "items_add env v None ?s1 = (Inr (), s')" and parts': "itemsInParts s'"
    and it: "items s' = items s @ [v]" and w: "warnings s' = warnings s"
    and vc: "Suc (viewsCreated s) \<le> viewsCreated s'"
    by auto
  have "createdBefore (viewsCreated s') v" using v vc by auto
  moreover have "list_all (createdBefore (viewsCreated s')) (items s)"
    using fresh vc by (auto simp: list_all_iff intro: createdBefore_mono)
  ultimately have "toolbar_ready s'" using parts' it by (simp add: toolbar_ready_def)
  with run it w show ?thesis by blast
qed

lemma fillFromConfig_added:
  assumes "toolbar_ready s"
  shows "\<exists>s' added. fillFromConfig env config factory s = (Inr (), s')
      \<and> items s' = items s @ added
      \<and> list_all2 isViewFor [name \<leftarrow> config. name = ''|'' \<or> factory name] added
      \<and> warnings s' = warnings s @ [name \<leftarrow> config. name \<noteq> ''|'' \<and> \<not> factory name]
      \<and> toolbar_ready s'"
  using assms
proof (induction config arbitrary: s)
  case Nil
  then show ?case by (simp add: returns_def)
next
  case (Cons name config)
  show ?case
  proof (cases "name = ''|''")
    case True
    from add_new_view[OF Cons.prems, of "ToolbarSeparatorView (viewsCreated s)" _ env] obtain s1 where
      run1: "items_add env (ToolbarSeparatorView (viewsCreated s)) None
               (s\<lparr>viewsCreated := Suc (viewsCreated s)\<rparr>) = (Inr (), s1)"
      and r1: "toolbar_ready s1" and i1: "items s1 = items s @ [ToolbarSeparatorView (viewsCreated s)]"
      and w1: "warnings s1 = warnings s"
      by auto
    from Cons.IH[OF r1] obtain s' added where
      run: "fillFromConfig env config factory s1 = (Inr (), s')"
      and it: "items s' = items s1 @ added"
      and al: "list_all2 isViewFor [name \<leftarrow> config. name = ''|'' \<or> factory name] added"
      and w: "warnings s' = warnings s1 @ [name \<leftarrow> config. name \<noteq> ''|'' \<and> \<not> factory name]"
      and r: "toolbar_ready s'"
      by blast
    have A: "fillFromConfig env (name # config) factory s = (Inr (), s')"
      using True run1 run
      by (simp add: andThen_def withResult_def new_ToolbarSeparatorView_def)
    have B: "items s' = items s @ (ToolbarSeparatorView (viewsCreated s) # added)"
      using it i1 by simp
    have C: "list_all2 isViewFor [n \<leftarrow> name # config. n = ''|'' \<or> factory n]
        (ToolbarSeparatorView (viewsCreated s) # added)"
      using True al by simp
    have D: "warnings s' = warnings s @ [n \<leftarrow> name # config. n \<noteq> ''|'' \<and> \<not> factory n]"
      using w w1 True by simp
    show ?thesis
      by (rule exI[of _ s'], rule exI[of _ "ToolbarSeparatorView (viewsCreated s) # added"])
         (intro conjI A B C D r)
  next
    case sep: False
    show ?thesis
    proof (cases "factory name")
      case True
      from add_new_view[OF Cons.prems, of "ComponentView name (viewsCreated s)" name env] obtain s1 where
        run1: "items_add env (ComponentView name (viewsCreated s)) None
                 (s\<lparr>viewsCreated := Suc (viewsCreated s)\<rparr>) = (Inr (), s1)"
        and r1: "toolbar_ready s1" and i1: "items s1 = items s @ [ComponentView name (viewsCreated s)]"
        and w1: "warnings s1 = warnings s"
        by auto
      from Cons.IH[OF r1] obtain s' added where
        run: "fillFromConfig env config factory s1 = (Inr (), s')"
        and it: "items s' = items s1 @ added"
        and al: "list_all2 isViewFor [name \<leftarrow> config. name = ''|'' \<or> factory name] added"
        and w: "warnings s' = warnings s1 @ [name \<leftarrow> config. name \<noteq> ''|'' \<and> \<not> factory name]"
        and r: "toolbar_ready s'"
        by blast
      have A: "fillFromConfig env (name # config) factory s = (Inr (), s')"
        using sep True run1 run
        by (simp add: andThen_def withResult_def factory_create_def)
      have B: "items s' = items s @ (ComponentView name (viewsCreated s) # added)"
        using it i1 by simp
      have C: "list_all2 isViewFor [n \<leftarrow> name # config. n = ''|'' \<or> factory n]
          (ComponentView name (viewsCreated s) # added)"
        using sep True al by simp
      have D: "warnings s' = warnings s @ [n \<leftarrow> name # config. n \<noteq> ''|'' \<and> \<not> factory n]"
        using w w1 sep True by simp
      show ?thesis
        by (rule exI[of _ s'], rule exI[of _ "ComponentView name (viewsCreated s) # added"])
           (intro conjI A B C D r)
    next
      case False
      let ?s1 = "s\<lparr>warnings := warnings s @ [name]\<rparr>"
      have "toolbar_ready ?s1 = toolbar_ready s"
        by (simp add: toolbar_ready_def itemsInParts_def grouping_wf_def)
      with Cons.prems have r1: "toolbar_ready ?s1" by simp
      from Cons.IH[OF r1] obtain s' added where
        run: "fillFromConfig env config factory ?s1 = (Inr (), s')"
        and it: "items s' = items ?s1 @ added"
        and al: "list_all2 isViewFor [name \<leftarrow> config. name = ''|'' \<or> factory name] added"
        and w: "warnings s' = warnings ?s1 @ [name \<leftarrow> config. name \<noteq> ''|'' \<and> \<not> factory name]"
        and r: "toolbar_ready s'"
        by blast
      have A: "fillFromConfig env (name # config) factory s = (Inr (), s')"
        using sep False run by (simp add: andThen_def warn_def)
      have B: "items s' = items s @ added" using it by simp
      have C: "list_all2 isViewFor [n \<leftarrow> name # config. n = ''|'' \<or> factory n] added"
        using sep False al by simp
      have D: "warnings s' = warnings s @ [n \<leftarrow> name # config. n \<noteq> ''|'' \<and> \<not> factory n]"
        using w sep False by simp
      show ?thesis
        by (rule exI[of _ s'], rule exI[of _ added]) (intro conjI A B C D r)
    qed
  qed
qed


text \<open>
  \<^verbatim>\<open>fillFromConfig\<close> on a toolbar that is ready to take items (a toolbar with the
  static layout, or a rendered toolbar with dynamic grouping) returns without an exception,
  whatever the configuration and the factory. The items it had stay in front; behind them
  come, in the order of the configuration, a new separator for every \<^verbatim>\<open>'|'\<close> and a new
  component for every name the factory has, and nothing else. Every other name is written
  to the console as a warning, in order, and adds no item.
\<close>

lemma fillFromConfig_items:
  assumes "toolbar_ready s"
  shows "\<exists>s'. fillFromConfig env config factory s = (Inr (), s')
      \<and> take (length (items s)) (items s') = items s
      \<and> list_all2 isViewFor [name \<leftarrow> config. name = ''|'' \<or> factory name]
            (drop (length (items s)) (items s'))
      \<and> warnings s' = warnings s @ [name \<leftarrow> config. name \<noteq> ''|'' \<and> \<not> factory name]
      \<and> toolbar_ready s'"
proof -
  from fillFromConfig_added[OF assms, of env config factory] obtain s' added where
    "fillFromConfig env config factory s = (Inr (), s')" "items s' = items s @ added"
    "list_all2 isViewFor [name \<leftarrow> config. name = ''|'' \<or> factory name] added"
    "warnings s' = warnings s @ [name \<leftarrow> config. name \<noteq> ''|'' \<and> \<not> factory name]"
    "toolbar_ready s'"
    by blast
  then show ?thesis by simp
qed

lemma fillFromConfig_items_witness:
  "toolbar_ready staticToolbar
   \<and> fst (fillFromConfig narrowLayout exampleConfig basicStyles staticToolbar) = Inr ()
   \<and> items (snd (fillFromConfig narrowLayout exampleConfig basicStyles staticToolbar))
       = [ComponentView ''bold'' 0, ComponentView ''italic'' 1, ToolbarSeparatorView 2,
          ComponentView ''link'' 3]
   \<and> warnings (snd (fillFromConfig narrowLayout exampleConfig basicStyles staticToolbar)) = [''foo'']
   \<and> toolbar_ready renderedToolbar
   \<and> fst (fillFromConfig narrowLayout exampleConfig basicStyles renderedToolbar) = Inr ()
   \<and> items (snd (fillFromConfig narrowLayout exampleConfig basicStyles renderedToolbar))
       = [ComponentView ''bold'' 0, ComponentView ''italic'' 1, ToolbarSeparatorView 3,
          ComponentView ''link'' 4]
   \<and> warnings (snd (fillFromConfig narrowLayout exampleConfig basicStyles renderedToolbar)) = [''foo'']"
proof -
  have r1: "toolbar_ready staticToolbar"
    by (simp add: toolbar_ready_def itemsInParts_def staticToolbar_def ToolbarView_new_def)
  have r2: "toolbar_ready renderedToolbar"
    by (simp add: toolbar_ready_def itemsInParts_def grouping_wf_def renderedToolbar_eq
        ToolbarView_new_def)
  from fillFromConfig_items[OF r1, of narrowLayout exampleConfig basicStyles] obtain s1 where
    s1: "fillFromConfig narrowLayout exampleConfig basicStyles staticToolbar = (Inr (), s1)"
    and w1: "warnings s1 = warnings staticToolbar
        @ [name \<leftarrow> exampleConfig. name \<noteq> ''|'' \<and> \<not> basicStyles name]"
    by blast
  from fillFromConfig_items[OF r2, of narrowLayout exampleConfig basicStyles] obtain s2 where
    s2: "fillFromConfig narrowLayout exampleConfig basicStyles renderedToolbar = (Inr (), s2)"
    and w2: "warnings s2 = warnings renderedToolbar
        @ [name \<leftarrow> exampleConfig. name \<noteq> ''|'' \<and> \<not> basicStyles name]"
    by blast
  have w: "warnings s1 = [''foo'']" "warnings s2 = [''foo'']"
    using w1 w2
    by (simp_all add: exampleConfig_def basicStyles_def staticToolbar_def renderedToolbar_eq
        ToolbarView_new_def)
  have i1: "items (snd (fillFromConfig narrowLayout exampleConfig basicStyles staticToolbar))
       = [ComponentView ''bold'' 0, ComponentView ''italic'' 1, ToolbarSeparatorView 2,
          ComponentView ''link'' 3]"
    by (simp add: exampleConfig_def basicStyles_def staticToolbar_def js_defs collection_defs
        toolbar_defs toolbar_examples)
  have i2: "items (snd (fillFromConfig narrowLayout exampleConfig basicStyles renderedToolbar))
       = [ComponentView ''bold'' 0, ComponentView ''italic'' 1, ToolbarSeparatorView 3,
          ComponentView ''link'' 4]"
    unfolding renderedToolbar_eq
    by (simp add: exampleConfig_def basicStyles_def js_defs collection_defs
        toolbar_defs loop_simps toolbar_examples)
  show ?thesis using r1 r2 s1 s2 w i1 i2 by simp
qed

end
